theory Spec2Isabelle
  imports Complex_Main
begin

section \<open>Weather data analysis: a shallow embedding of app.py\<close>

text \<open>
  The program is one Python class, \<open>WeatherDataAnalyzer\<close>, built on NumPy arrays.
  Arrays are modelled as lists, index arrays and counters as lists of \<open>int\<close>,
  and every exception a modelled NumPy or Python call can raise is a value of
  \<open>py_error\<close> on the left of a sum.
\<close>

datatype py_error = ValueError | TypeError | IndexError | OverflowError | LinAlgError

subsection \<open>Floating-point arithmetic\<close>

text \<open>
  The arrays hold IEEE doubles. The statistics below are modelled with their
  rounding: every addition, subtraction, multiplication, division and square
  root of finite numbers returns the rounding \<open>rnd\<close> of the exact result, and a
  reduction \<open>np.sum\<close> over a non-empty array returns \<open>sum_of\<close> of it (NumPy adds
  pairwise in blocks, in an order that depends on the length and the build).
  Both are the fields of a record that every such function takes. Overflow
  and underflow are not modelled. The special values that a division by zero
  or an empty reduction produces are values of their own, since the program
  silences NumPy's warnings (line 5) and carries them on as data. Signed zeros
  are not modelled: every divisor the program uses is a square root or a
  count. The generator and the moving averages, whose claims are about lengths
  and clipping bounds, are written with exact real arithmetic.
\<close>

record float_ops =
  rnd :: "real \<Rightarrow> real"
  sum_of :: "real list \<Rightarrow> real"

text \<open>
  Rounding to the nearest double, ties to even: the 53-bit significand at the
  binary exponent of the argument.
\<close>

definition round_even :: "real \<Rightarrow> int" where
  "round_even y =
     (let f = \<lfloor>y\<rfloor>; r = y - of_int f
      in if r < 1 / 2 then f else if 1 / 2 < r then f + 1 else if even f then f else f + 1)"

definition pow2 :: "int \<Rightarrow> real" where
  "pow2 e = (if 0 \<le> e then 2 ^ nat e else 1 / 2 ^ nat (- e))"

definition round53 :: "real \<Rightarrow> real" where
  "round53 x =
     (if x = 0 then 0
      else let e = \<lfloor>log 2 \<bar>x\<bar>\<rfloor>
           in of_int (round_even (x * pow2 (52 - e))) * pow2 (e - 52))"

text \<open>
  Double arithmetic with the sum taken from left to right, the order of NumPy's
  loop on arrays of fewer than eight elements (the examples computed with it
  below have partial sums that are exact in every order); and exact
  arithmetic, for comparison.
\<close>

definition ieee :: float_ops where
  "ieee = \<lparr>rnd = round53, sum_of = foldl (\<lambda>s x. round53 (s + x)) 0\<rparr>"

definition exact_arithmetic :: float_ops where
  "exact_arithmetic = \<lparr>rnd = (\<lambda>x. x), sum_of = sum_list\<rparr>"

datatype fval = Fin real | PInf | NInf | NaN

fun isnan :: "fval \<Rightarrow> bool" where
  "isnan NaN = True"
| "isnan v = False"

fun f_neg :: "fval \<Rightarrow> fval" where
  "f_neg (Fin x) = Fin (- x)"
| "f_neg PInf = NInf"
| "f_neg NInf = PInf"
| "f_neg NaN = NaN"

fun f_add :: "float_ops \<Rightarrow> fval \<Rightarrow> fval \<Rightarrow> fval" where
  "f_add fo NaN v = NaN"
| "f_add fo v NaN = NaN"
| "f_add fo (Fin x) (Fin y) = Fin (rnd fo (x + y))"
| "f_add fo PInf NInf = NaN"
| "f_add fo NInf PInf = NaN"
| "f_add fo PInf v = PInf"
| "f_add fo NInf v = NInf"
| "f_add fo (Fin x) v = v"

definition f_sub :: "float_ops \<Rightarrow> fval \<Rightarrow> fval \<Rightarrow> fval" where
  "f_sub fo a b = f_add fo a (f_neg b)"

text \<open>
  Division as NumPy's \<open>true_divide\<close> performs it: a finite number over zero is
  an infinity of its sign, zero over zero is NaN, and nothing is raised.
\<close>

fun f_div :: "float_ops \<Rightarrow> fval \<Rightarrow> fval \<Rightarrow> fval" where
  "f_div fo NaN v = NaN"
| "f_div fo v NaN = NaN"
| "f_div fo (Fin x) (Fin y) =
     (if y = 0 then (if x = 0 then NaN else if x > 0 then PInf else NInf)
      else Fin (rnd fo (x / y)))"
| "f_div fo (Fin x) v = Fin 0"
| "f_div fo PInf (Fin y) = (if y < 0 then NInf else PInf)"
| "f_div fo NInf (Fin y) = (if y < 0 then PInf else NInf)"
| "f_div fo v w = NaN"

fun f_abs :: "fval \<Rightarrow> fval" where
  "f_abs (Fin x) = Fin \<bar>x\<bar>"
| "f_abs NaN = NaN"
| "f_abs v = PInf"

fun f_sqrt :: "float_ops \<Rightarrow> fval \<Rightarrow> fval" where
  "f_sqrt fo (Fin x) = (if x < 0 then NaN else Fin (rnd fo (sqrt x)))"
| "f_sqrt fo PInf = PInf"
| "f_sqrt fo v = NaN"

text \<open>The comparison \<open>a <= b\<close> of doubles: False as soon as a NaN is involved.\<close>

fun f_le :: "fval \<Rightarrow> fval \<Rightarrow> bool" where
  "f_le NaN v = False"
| "f_le v NaN = False"
| "f_le (Fin x) (Fin y) = (x \<le> y)"
| "f_le NInf v = True"
| "f_le v PInf = True"
| "f_le v w = False"

definition f_gt :: "fval \<Rightarrow> fval \<Rightarrow> bool" where
  "f_gt a b = (f_le b a \<and> \<not> f_le a b)"

text \<open>\<open>np.clip(v, lo, hi)\<close> is \<open>minimum(maximum(v, lo), hi)\<close>; a NaN stays a NaN.\<close>

definition clip :: "real \<Rightarrow> real \<Rightarrow> real \<Rightarrow> real" where
  "clip v lo hi = min (max v lo) hi"

fun f_clip :: "fval \<Rightarrow> real \<Rightarrow> real \<Rightarrow> fval" where
  "f_clip (Fin x) lo hi = Fin (clip x lo hi)"
| "f_clip PInf lo hi = Fin hi"
| "f_clip NInf lo hi = Fin (min lo hi)"
| "f_clip NaN lo hi = NaN"

text \<open>\<open>np.sum\<close>: the additive identity on an empty array, the reduction otherwise.\<close>

definition np_sum :: "float_ops \<Rightarrow> real list \<Rightarrow> real" where
  "np_sum fo a = (if a = [] then 0 else sum_of fo a)"

text \<open>
  \<open>np.mean\<close>: the sum over the count. Over an empty array it is 0/0, a NaN with a
  (silenced) RuntimeWarning, not an exception.
\<close>

definition np_mean :: "float_ops \<Rightarrow> real list \<Rightarrow> fval" where
  "np_mean fo a = f_div fo (Fin (np_sum fo a)) (Fin (real (length a)))"

text \<open>
  \<open>np.std\<close> (population standard deviation, ddof = 0): the deviations from the
  mean, their squares, the mean of the squares, its square root.
\<close>

definition np_std :: "float_ops \<Rightarrow> real list \<Rightarrow> fval" where
  "np_std fo a =
     (case np_mean fo a of
        Fin m \<Rightarrow>
          f_sqrt fo (np_mean fo (map (\<lambda>x. rnd fo (rnd fo (x - m) * rnd fo (x - m))) a))
      | v \<Rightarrow> NaN)"

subsection \<open>The generator (generate_weather_data, lines 18-53)\<close>

text \<open>
  A \<open>datetime\<close> at midnight is modelled by its proleptic Gregorian ordinal
  (\<open>date.toordinal()\<close>: 1 is 0001-01-01). Adding \<open>timedelta(days=i)\<close> adds \<open>i\<close> to
  the ordinal and raises OverflowError when the result leaves the years 1..9999.
\<close>

definition start_date :: int where
  "start_date = 737791"  \<comment> \<open>\<open>datetime(2021, 1, 1)\<close>\<close>

definition max_ordinal :: int where
  "max_ordinal = 3652059"  \<comment> \<open>\<open>datetime.max\<close>, 9999-12-31\<close>

definition add_days :: "int \<Rightarrow> int \<Rightarrow> py_error + int" where
  "add_days d i = (if 1 \<le> d + i \<and> d + i \<le> max_ordinal then Inr (d + i) else Inl OverflowError)"

text \<open>
  \<open>date.timetuple().tm_yday\<close>, the day of the year (1..366), by the standard
  library's decomposition of an ordinal into 400-, 100-, 4- and 1-year cycles.
\<close>

definition tm_yday :: "int \<Rightarrow> int" where
  "tm_yday ordinal =
     (let n = ordinal - 1;
          r400 = n mod 146097;
          n100 = r400 div 36524; r100 = r400 mod 36524;
          r4 = r100 mod 1461;
          n1 = r4 div 365; r1 = r4 mod 365
      in if n1 = 4 \<or> n100 = 4 then 366 else r1 + 1)"

text \<open>
  The list comprehension of line 22: the dates in order, stopping at the first
  addition that raises.
\<close>

fun make_dates :: "int \<Rightarrow> nat list \<Rightarrow> py_error + int list" where
  "make_dates d [] = Inr []"
| "make_dates d (i # is) =
     (case add_days d (int i) of
        Inl e \<Rightarrow> Inl e
      | Inr x \<Rightarrow> (case make_dates d is of Inl e \<Rightarrow> Inl e | Inr xs \<Rightarrow> Inr (x # xs)))"

text \<open>
  Lines 28-29: \<open>for i in range(1, self.days): daily_variation[i] += 0.3 * daily_variation[i-1]\<close>,
  an in-place update of the array, index after index.
\<close>

definition ar1_step :: "nat \<Rightarrow> real list \<Rightarrow> real list" where
  "ar1_step i v = v[i := v ! i + 0.3 * v ! (i - 1)]"

definition ar1_loop :: "nat \<Rightarrow> real list \<Rightarrow> real list" where
  "ar1_loop days v = fold ar1_step [1..<days] v"

text \<open>
  The same recurrence as the specification words it: a prefix scan that carries
  the previous output, \<open>variation[0] = noise[0]\<close> and
  \<open>variation[i] = noise[i] + 0.3 * variation[i-1]\<close>.
\<close>

fun ar1_scan :: "real \<Rightarrow> real list \<Rightarrow> real list" where
  "ar1_scan prev [] = []"
| "ar1_scan prev (e # es) = (e + 0.3 * prev) # ar1_scan (e + 0.3 * prev) es"

definition ar1_spec :: "real list \<Rightarrow> real list" where
  "ar1_spec noise = (case noise of [] \<Rightarrow> [] | e # es \<Rightarrow> e # ar1_scan e es)"

text \<open>
  The random sources. Each call \<open>np.random.f(..., self.days)\<close> returns an array of
  \<open>self.days\<close> draws; the record gives the draw at each index, in the order of the
  six calls (lines 27, 34, 40, 42, 45, 49).
\<close>

record random_source =
  normal_temp :: "nat \<Rightarrow> real"
  normal_humidity :: "nat \<Rightarrow> real"
  uniform_rain :: "nat \<Rightarrow> real"
  exponential_rain :: "nat \<Rightarrow> real"
  normal_wind :: "nat \<Rightarrow> real"
  normal_pressure :: "nat \<Rightarrow> real"

definition draw :: "(nat \<Rightarrow> real) \<Rightarrow> nat \<Rightarrow> real list" where
  "draw f n = map f [0..<n]"

record weather_series =
  dates :: "int list"
  temperature :: "real list"
  humidity :: "real list"
  precipitation :: "real list"
  wind_speed :: "real list"
  pressure :: "real list"

text \<open>
  Lines 21-51. A negative \<open>self.days\<close> gives empty ranges and then a ValueError from
  the first sized draw (line 27). All arrays have \<open>self.days\<close> elements, so the
  elementwise operations are pointwise.
\<close>

definition generate_weather_data :: "int \<Rightarrow> random_source \<Rightarrow> py_error + weather_series" where
  "generate_weather_data days rs =
     (let n = nat days in
      case make_dates start_date [0..<n] of
        Inl e \<Rightarrow> Inl e
      | Inr ds \<Rightarrow>
          if days < 0 then Inl ValueError
          else
            let day_of_year = map tm_yday ds;
                seasonal_temp = map (\<lambda>d. 20 + 15 * sin (2 * pi * real_of_int d / 365.25 - pi / 2)) day_of_year;
                daily_variation = ar1_loop n (draw (normal_temp rs) n);
                temp = map2 (+) seasonal_temp daily_variation;
                base_humidity = map (\<lambda>t. 70 - 0.5 * (t - 20)) temp;
                humidity_noise = draw (normal_humidity rs) n;
                hum = map (\<lambda>h. clip h 10 100) (map2 (+) base_humidity humidity_noise);
                precip_probability = map (\<lambda>h. clip ((h - 30) / 70) 0 1) hum;
                rain_events = map2 (\<lambda>u p. u < p * 0.3) (draw (uniform_rain rs) n) precip_probability;
                prec = map2 (\<lambda>r e. if r then e else 0) rain_events (draw (exponential_rain rs) n);
                base_wind = map2 (+) (map (\<lambda>p. 8 + 0.3 * p) prec) (draw (normal_wind rs) n);
                wind = map (\<lambda>w. clip w 0 50) base_wind;
                seasonal_pressure = map (\<lambda>d. 1013 + 10 * sin (2 * pi * real_of_int d / 365.25)) day_of_year;
                pressure_variation = draw (normal_pressure rs) n;
                pressure_drop = map (\<lambda>p. - 5 * (if p > 0 then 1 else 0)) prec;
                pres = map2 (+) (map2 (+) seasonal_pressure pressure_variation) pressure_drop
            in Inr \<lparr>dates = ds, temperature = temp, humidity = hum, precipitation = prec,
                     wind_speed = wind, pressure = pres\<rparr>)"

text \<open>
  The invariants of a series of \<open>n\<close> days, in the words of the data model: six
  sequences of length \<open>n\<close>, consecutive dates one day apart, humidity in
  \<open>[10, 100]\<close>, precipitation at least 0, wind speed in \<open>[0, 50]\<close>.
\<close>

definition series_invariants :: "nat \<Rightarrow> weather_series \<Rightarrow> bool" where
  "series_invariants n ws =
     (length (dates ws) = n \<and> length (temperature ws) = n \<and> length (humidity ws) = n \<and>
      length (precipitation ws) = n \<and> length (wind_speed ws) = n \<and> length (pressure ws) = n \<and>
      (\<forall>i. Suc i < n \<longrightarrow> dates ws ! Suc i = dates ws ! i + 1) \<and>
      (\<forall>h \<in> set (humidity ws). 10 \<le> h \<and> h \<le> 100) \<and>
      (\<forall>p \<in> set (precipitation ws). 0 \<le> p) \<and>
      (\<forall>w \<in> set (wind_speed ws). 0 \<le> w \<and> w \<le> 50))"

subsection \<open>The run-length detector (find_consecutive_events, lines 186-193)\<close>

text \<open>\<open>.astype(int)\<close> on a boolean array: False is 0 and True is 1.\<close>

definition astype_int :: "bool list \<Rightarrow> int list" where
  "astype_int bs = map (\<lambda>b. if b then 1 else 0) bs"

text \<open>\<open>np.diff\<close>: \<open>out[i] = a[i+1] - a[i]\<close>, one element shorter than the input.\<close>

fun np_diff :: "int list \<Rightarrow> int list" where
  "np_diff (x # y # zs) = (y - x) # np_diff (y # zs)"
| "np_diff zs = []"

text \<open>
  \<open>np.where(cond)[0]\<close>: the indices at which a one-dimensional boolean array is
  True, in increasing order. \<open>where_from k\<close> is the scan from index \<open>k\<close> on.
\<close>

fun where_from :: "int \<Rightarrow> bool list \<Rightarrow> int list" where
  "where_from k [] = []"
| "where_from k (c # cs) = (if c then k # where_from (k + 1) cs else where_from (k + 1) cs)"

definition np_where :: "bool list \<Rightarrow> int list" where
  "np_where cond = where_from 0 cond"

text \<open>
  An elementwise binary operation on two one-dimensional arrays, with NumPy's
  broadcasting: equal shapes combine pointwise, a one-element operand is
  stretched, and any other pair of shapes raises ValueError.
\<close>

definition np_binop :: "('a \<Rightarrow> 'a \<Rightarrow> 'a) \<Rightarrow> 'a list \<Rightarrow> 'a list \<Rightarrow> py_error + 'a list" where
  "np_binop f a b =
     (if length a = length b then Inr (map2 f a b)
      else if length b = 1 then Inr (map (\<lambda>x. f x (hd b)) a)
      else if length a = 1 then Inr (map (\<lambda>y. f (hd a) y) b)
      else Inl ValueError)"

text \<open>\<open>ends - starts\<close> on integer index arrays.\<close>

definition np_subtract :: "int list \<Rightarrow> int list \<Rightarrow> py_error + int list" where
  "np_subtract a b = np_binop (-) a b"

text \<open>
  Lines 187-192: the local \<open>lengths\<close> of \<open>find_consecutive_events\<close>, the list of
  run lengths found by edge detection.
\<close>

definition event_lengths :: "bool list \<Rightarrow> py_error + int list" where
  "event_lengths boolean_array =
     (let changes = np_diff (astype_int ([False] @ boolean_array @ [False]));
          starts = np_where (map (\<lambda>c. c = 1) changes);
          ends = np_where (map (\<lambda>c. c = - 1) changes)
      in np_subtract ends starts)"

text \<open>Line 193: \<open>np.sum(lengths >= min_length)\<close> counts the True entries.\<close>

definition find_consecutive_events :: "bool list \<Rightarrow> int \<Rightarrow> py_error + int" where
  "find_consecutive_events boolean_array min_length =
     (case event_lengths boolean_array of
        Inl e \<Rightarrow> Inl e
      | Inr lengths \<Rightarrow> Inr (sum_list (astype_int (map (\<lambda>l. l \<ge> min_length) lengths))))"

subsection \<open>Correlation (correlation_analysis, lines 111-119)\<close>

text \<open>The mean of a non-empty row as a number: the rounded quotient of sum and count.\<close>

definition mean_r :: "float_ops \<Rightarrow> real list \<Rightarrow> real" where
  "mean_r fo a = rnd fo (np_sum fo a / real (length a))"

text \<open>
  One entry of \<open>np.cov\<close> for two rows of equal length \<open>n\<close>: the rows minus their
  means, the dot product of the deviations (the reduction of their rounded
  products), times \<open>1 / (n - 1)\<close>. With fewer than two observations the factor
  is \<open>1 / 0\<close> and the entry \<open>0 * inf\<close>, a NaN.
\<close>

definition np_cov :: "float_ops \<Rightarrow> real list \<Rightarrow> real list \<Rightarrow> fval" where
  "np_cov fo x y =
     (if 2 \<le> length x
      then Fin (rnd fo
             (np_sum fo (map2 (\<lambda>a b. rnd fo (rnd fo (a - mean_r fo x) * rnd fo (b - mean_r fo y))) x y)
                * rnd fo (1 / (real (length x) - 1))))
      else NaN)"

text \<open>
  \<open>np.corrcoef\<close> on the rows of a matrix: the covariance matrix, its rows divided
  by the square roots of the diagonal, then its columns, then clipped to
  \<open>[-1, 1]\<close>. No variance is tested before the divisions.
\<close>

definition np_corrcoef :: "float_ops \<Rightarrow> real list list \<Rightarrow> fval list list" where
  "np_corrcoef fo m =
     (let stddev = map (\<lambda>x. f_sqrt fo (np_cov fo x x)) m
      in map (\<lambda>i. map (\<lambda>j.
               f_clip (f_div fo (f_div fo (np_cov fo (m ! i) (m ! j)) (stddev ! i)) (stddev ! j))
                 (- 1) 1)
             [0..<length m]) [0..<length m])"

text \<open>
  Lines 111-119. \<open>np.column_stack\<close> raises ValueError unless the five arrays have
  one length.
\<close>

definition correlation_analysis :: "float_ops \<Rightarrow> weather_series \<Rightarrow> py_error + fval list list" where
  "correlation_analysis fo ws =
     (let vars = [temperature ws, humidity ws, precipitation ws, wind_speed ws, pressure ws]
      in if list_all (\<lambda>v. length v = length (temperature ws)) vars
         then Inr (np_corrcoef fo vars) else Inl ValueError)"

subsection \<open>Extreme weather (extreme_weather_analysis, lines 147-178)\<close>

text \<open>
  \<open>np.percentile(a, q)\<close> with the default linear interpolation between the two
  nearest ranks of the sorted data. What it does on an empty array depends on
  the NumPy release (a NaN with a warning, or an IndexError); that outcome is
  the parameter \<open>on_empty\<close>.
\<close>

definition np_percentile :: "(py_error + fval) \<Rightarrow> real list \<Rightarrow> real \<Rightarrow> py_error + fval" where
  "np_percentile on_empty a q =
     (if q < 0 \<or> 100 < q then Inl ValueError
      else if a = [] then on_empty
      else
        let s = sort a;
            v = q / 100 * real (length a - 1);
            lo = nat \<lfloor>v\<rfloor>;
            hi = min (lo + 1) (length a - 1)
        in Inr (Fin (s ! lo + (s ! hi - s ! lo) * (v - real lo))))"

text \<open>Line 149: the heavy-rain threshold, over the days with rain only.\<close>

definition heavy_rain_threshold :: "(py_error + fval) \<Rightarrow> real list \<Rightarrow> py_error + fval" where
  "heavy_rain_threshold on_empty prec = np_percentile on_empty (filter (\<lambda>p. p > 0) prec) 90"

text \<open>
  Lines 174-175: \<open>(a - np.mean(a)) / np.std(a)\<close>, elementwise, with no test of the
  standard deviation; line 173 is its absolute value.
\<close>

definition zscore :: "float_ops \<Rightarrow> real list \<Rightarrow> fval list" where
  "zscore fo a = map (\<lambda>x. f_div fo (f_sub fo (Fin x) (np_mean fo a)) (np_std fo a)) a"

definition temp_normalized :: "float_ops \<Rightarrow> real list \<Rightarrow> fval list" where
  "temp_normalized fo temp = map f_abs (zscore fo temp)"

text \<open>Line 177: the sum of the three arrays, left to right.\<close>

definition extreme_score ::
  "float_ops \<Rightarrow> real list \<Rightarrow> real list \<Rightarrow> real list \<Rightarrow> py_error + fval list" where
  "extreme_score fo temp wind prec =
     (case np_binop (f_add fo) (temp_normalized fo temp) (zscore fo wind) of
        Inl e \<Rightarrow> Inl e
      | Inr tw \<Rightarrow> np_binop (f_add fo) tw (zscore fo prec))"

text \<open>
  \<open>np.argmax\<close> on doubles: ValueError on an empty array; otherwise one pass that
  keeps the running maximum \<open>mp\<close> and its index, replaces them when
  \<open>not (x <= mp)\<close>, and stops at the first NaN.
\<close>

fun argmax_loop :: "fval list \<Rightarrow> nat \<Rightarrow> fval \<Rightarrow> nat \<Rightarrow> nat" where
  "argmax_loop [] i mp max_ind = max_ind"
| "argmax_loop (x # xs) i mp max_ind =
     (if \<not> f_le x mp
      then (if isnan x then i else argmax_loop xs (i + 1) x i)
      else argmax_loop xs (i + 1) mp max_ind)"

definition np_argmax :: "fval list \<Rightarrow> py_error + nat" where
  "np_argmax a =
     (case a of
        [] \<Rightarrow> Inl ValueError
      | x # xs \<Rightarrow> Inr (if isnan x then 0 else argmax_loop xs 1 x 0))"

text \<open>Line 178.\<close>

definition most_extreme_day ::
  "float_ops \<Rightarrow> real list \<Rightarrow> real list \<Rightarrow> real list \<Rightarrow> py_error + nat" where
  "most_extreme_day fo temp wind prec =
     (case extreme_score fo temp wind prec of
        Inl e \<Rightarrow> Inl e
      | Inr score \<Rightarrow> np_argmax score)"

subsection \<open>Trends (moving_averages, lines 200-219)\<close>

text \<open>
  \<open>np.convolve(a, v, mode='valid')\<close>: the operands are swapped when \<open>v\<close> is the
  longer one, an empty operand raises ValueError, and the result is the
  correlation of the longer operand with the reversed shorter one at every
  offset where the shorter one fits.
\<close>

definition correlate_valid :: "real list \<Rightarrow> real list \<Rightarrow> real list" where
  "correlate_valid a v =
     map (\<lambda>k. sum_list (map2 (*) (take (length v) (drop k a)) v))
         [0..<length a - length v + 1]"

definition np_convolve_valid :: "real list \<Rightarrow> real list \<Rightarrow> py_error + real list" where
  "np_convolve_valid a v =
     (let a' = (if length v > length a then v else a);
          v' = (if length v > length a then a else v)
      in if a' = [] then Inl ValueError
         else if v' = [] then Inl ValueError
         else Inr (correlate_valid a' (rev v')))"

text \<open>Lines 203-204: \<open>np.convolve(self.temperature, np.ones(window)/window, mode='valid')\<close>.\<close>

definition moving_average :: "real list \<Rightarrow> nat \<Rightarrow> py_error + real list" where
  "moving_average temp window = np_convolve_valid temp (replicate window (1 / real window))"

definition temp_7day :: "real list \<Rightarrow> py_error + real list" where
  "temp_7day temp = moving_average temp 7"

definition temp_30day :: "real list \<Rightarrow> py_error + real list" where
  "temp_30day temp = moving_average temp 30"

text \<open>
  \<open>np.polyfit(x, y, 1)\<close>: TypeError on an empty \<open>x\<close> or on different lengths;
  otherwise the coefficients that LAPACK's least-squares solver returns for the
  scaled system, in double precision, or the LinAlgError it raises. The
  solver is the parameter \<open>lstsq\<close>: its result approximates the least-squares
  line and is not the exact one.
\<close>

definition np_polyfit1 ::
  "(real list \<Rightarrow> real list \<Rightarrow> py_error + fval \<times> fval) \<Rightarrow> real list \<Rightarrow> real list
     \<Rightarrow> py_error + fval \<times> fval" where
  "np_polyfit1 lstsq x y =
     (if x = [] then Inl TypeError
      else if length x \<noteq> length y then Inl TypeError
      else lstsq x y)"

text \<open>Line 212: \<open>np.arange(n)\<close>, the day indices \<open>0, ..., n - 1\<close>.\<close>

definition np_arange :: "nat \<Rightarrow> real list" where
  "np_arange n = map real [0..<n]"

text \<open>Line 219: \<open>"warming" if slope > 0 else "cooling"\<close>.\<close>

definition trend_direction :: "fval \<Rightarrow> string" where
  "trend_direction slope = (if f_gt slope (Fin 0) then ''warming'' else ''cooling'')"

text \<open>Lines 212-219: the fitted slope and its label.\<close>

definition linear_trend ::
  "(real list \<Rightarrow> real list \<Rightarrow> py_error + fval \<times> fval) \<Rightarrow> real list
     \<Rightarrow> py_error + fval \<times> string" where
  "linear_trend lstsq temp =
     (case np_polyfit1 lstsq (np_arange (length temp)) temp of
        Inl e \<Rightarrow> Inl e
      | Inr (slope, intercept) \<Rightarrow> Inr (slope, trend_direction slope))"

text \<open>
  The ordinary least-squares line of the specification, in exact arithmetic:
  the slope is the product sum of the deviations over the sum of the squared
  deviations of \<open>x\<close>, and the line passes through the point of the means.
\<close>

definition avg :: "real list \<Rightarrow> real" where
  "avg a = sum_list a / real (length a)"

definition ols_slope :: "real list \<Rightarrow> real list \<Rightarrow> real" where
  "ols_slope x y =
     sum_list (map2 (\<lambda>a b. (a - avg x) * (b - avg y)) x y)
       / sum_list (map (\<lambda>a. (a - avg x) * (a - avg x)) x)"

definition ols_intercept :: "real list \<Rightarrow> real list \<Rightarrow> real" where
  "ols_intercept x y = avg y - ols_slope x y * avg x"

text \<open>The sum of the squared residuals of the line with slope \<open>s\<close> and intercept \<open>i\<close>.\<close>

definition rss :: "real list \<Rightarrow> real list \<Rightarrow> real \<Rightarrow> real \<Rightarrow> real" where
  "rss x y s i = sum_list (map2 (\<lambda>a b. (b - (s * a + i))\<^sup>2) x y)"

subsection \<open>Precipitation patterns (precipitation_patterns, lines 227-250)\<close>

text \<open>Line 229: the mean over the days with rain, with no test that there is one.\<close>

definition avg_rainy_day :: "float_ops \<Rightarrow> real list \<Rightarrow> fval" where
  "avg_rainy_day fo prec = np_mean fo (filter (\<lambda>p. p > 0) prec)"

text \<open>Dry spells, lines 237-250. Line 237: \<open>no_rain = self.precipitation == 0\<close>.\<close>

definition no_rain :: "real list \<Rightarrow> bool list" where
  "no_rain prec = map (\<lambda>p. p = 0) prec"

text \<open>
  Lines 240-247: the loop over the days, with the counter \<open>current_spell\<close> and the
  list \<open>dry_spell_lengths\<close> (appended to at its end) as the carried state.
\<close>

fun dry_spell_loop :: "bool list \<Rightarrow> int \<Rightarrow> int list \<Rightarrow> int \<times> int list" where
  "dry_spell_loop [] current_spell lens = (current_spell, lens)"
| "dry_spell_loop (day # days) current_spell lens =
     (if day then dry_spell_loop days (current_spell + 1) lens
      else dry_spell_loop days 0
             (if current_spell > 0 then lens @ [current_spell] else lens))"

text \<open>Lines 238-250: the loop from an empty list, then the trailing spell.\<close>

definition dry_spell_lengths :: "bool list \<Rightarrow> int list" where
  "dry_spell_lengths days =
     (case dry_spell_loop days 0 [] of
        (current_spell, lens) \<Rightarrow>
          if current_spell > 0 then lens @ [current_spell] else lens)"

subsection \<open>Auxiliary definitions for the proofs\<close>

text \<open>
  For the agreement of the two run detectors: \<open>spells cur days\<close> is what the
  dry-spell loop still emits when it enters \<open>days\<close> with the counter at \<open>cur\<close>.
  \<open>edges prev bs\<close> is the first difference of the 0/1 array that starts with
  \<open>prev\<close>, continues with \<open>bs\<close> and ends with the closing False; \<open>starts_from\<close>
  and \<open>ends_from\<close> are the positions of its rising and falling edges, counted
  from \<open>k\<close>.
\<close>

fun spells :: "int \<Rightarrow> bool list \<Rightarrow> int list" where
  "spells cur [] = (if cur > 0 then [cur] else [])"
| "spells cur (day # days) =
     (if day then spells (cur + 1) days
      else if cur > 0 then cur # spells 0 days else spells 0 days)"

definition edges :: "bool \<Rightarrow> bool list \<Rightarrow> int list" where
  "edges prev bs = np_diff (astype_int (prev # bs @ [False]))"

definition starts_from :: "int \<Rightarrow> bool \<Rightarrow> bool list \<Rightarrow> int list" where
  "starts_from k prev bs = where_from k (map (\<lambda>c. c = 1) (edges prev bs))"

definition ends_from :: "int \<Rightarrow> bool \<Rightarrow> bool list \<Rightarrow> int list" where
  "ends_from k prev bs = where_from k (map (\<lambda>c. c = - 1) (edges prev bs))"

text \<open>
  For \<open>np.argmax\<close>, what it means for index \<open>k\<close> to be the answer on the array
  \<open>s\<close>: no element is larger than \<open>s[k]\<close> (a NaN counts as maximal), and every
  element before \<open>k\<close> is a number strictly below \<open>s[k]\<close>.
\<close>

definition first_max :: "fval list \<Rightarrow> nat \<Rightarrow> bool" where
  "first_max s k =
     (k < length s \<and>
      (\<forall>j<length s. isnan (s ! k) \<or> f_le (s ! j) (s ! k)) \<and>
      (\<forall>j<k. \<not> isnan (s ! j) \<and> \<not> f_le (s ! k) (s ! j)))"

section \<open>The two run detectors agree\<close>

lemma dry_spell_loop_spells:
  "(case dry_spell_loop days cur lens of
      (current_spell, lens') \<Rightarrow> if current_spell > 0 then lens' @ [current_spell] else lens')
   = lens @ spells cur days"
  by (induction days arbitrary: cur lens) auto

lemma edges_Nil: "edges prev [] = [if prev then - 1 else 0]"
  by (simp add: edges_def astype_int_def)

lemma edges_Cons:
  "edges prev (b # bs) = ((if b then 1 else 0) - (if prev then 1 else 0)) # edges b bs"
  by (simp add: edges_def astype_int_def)

text \<open>
  The invariant of the edge scan at position \<open>k\<close>. Outside a run there are as many
  ends as starts ahead, and pairing them gives the remaining spells. Inside a
  run that began at \<open>s\<close> there is one more end than starts, and the pairing with
  \<open>s\<close> put in front gives the spells of a loop whose counter stands at \<open>k - s\<close>.
\<close>

lemma edge_runs:
  "(length (ends_from k False bs) = length (starts_from k False bs) \<and>
    map2 (-) (ends_from k False bs) (starts_from k False bs) = spells 0 bs) \<and>
   (\<forall>s. s < k \<longrightarrow>
      length (ends_from k True bs) = Suc (length (starts_from k True bs)) \<and>
      map2 (-) (ends_from k True bs) (s # starts_from k True bs) = spells (k - s) bs)"
proof (induction bs arbitrary: k)
  case Nil
  show ?case by (simp add: ends_from_def starts_from_def edges_Nil)
next
  case (Cons b bs)
  note IH = Cons.IH [of "k + 1"]
  show ?case
  proof (cases b)
    case True
    from IH have f: "length (ends_from (k + 1) True bs) = Suc (length (starts_from (k + 1) True bs))"
      and g: "\<And>s. s < k + 1 \<Longrightarrow>
        map2 (-) (ends_from (k + 1) True bs) (s # starts_from (k + 1) True bs) = spells (k + 1 - s) bs"
      by auto
    have e: "ends_from k p (True # bs) = ends_from (k + 1) True bs" for p
      by (simp add: ends_from_def edges_Cons)
    have s1: "starts_from k False (True # bs) = k # starts_from (k + 1) True bs"
      by (simp add: starts_from_def edges_Cons)
    have s2: "starts_from k True (True # bs) = starts_from (k + 1) True bs"
      by (simp add: starts_from_def edges_Cons)
    show ?thesis using True f g [of k] g
      by (simp add: e s1 s2 algebra_simps)
  next
    case False
    from IH have f: "length (ends_from (k + 1) False bs) = length (starts_from (k + 1) False bs)"
      and g: "map2 (-) (ends_from (k + 1) False bs) (starts_from (k + 1) False bs) = spells 0 bs"
      by auto
    have s: "starts_from k p (False # bs) = starts_from (k + 1) False bs" for p
      by (simp add: starts_from_def edges_Cons)
    have e1: "ends_from k False (False # bs) = ends_from (k + 1) False bs"
      by (simp add: ends_from_def edges_Cons)
    have e2: "ends_from k True (False # bs) = k # ends_from (k + 1) False bs"
      by (simp add: ends_from_def edges_Cons)
    show ?thesis using False f g
      by (simp add: s e1 e2)
  qed
qed

text \<open>
  Claim C1. On every boolean array the edge-detection detector of
  \<open>find_consecutive_events\<close> (pad with False, cast to 0/1, first difference,
  starts at +1, exclusive ends at -1, lengths as \<open>ends - starts\<close>) raises nothing
  and yields exactly the list the sequential dry-spell loop builds: the same
  run lengths in the same order.
\<close>

theorem detectors_agree: "event_lengths bs = Inr (dry_spell_lengths bs)"
proof -
  have len: "length (ends_from 0 False bs) = length (starts_from 0 False bs)"
    and runs: "map2 (-) (ends_from 0 False bs) (starts_from 0 False bs) = spells 0 bs"
    using edge_runs [of 0 bs] by simp_all
  have "dry_spell_lengths bs = spells 0 bs"
    using dry_spell_loop_spells [of bs 0 "[]"] by (simp add: dry_spell_lengths_def)
  moreover have "event_lengths bs
      = np_subtract (ends_from 0 False bs) (starts_from 0 False bs)"
    by (simp add: event_lengths_def Let_def np_where_def ends_from_def starts_from_def edges_def)
  ultimately show ?thesis using len runs by (simp add: np_subtract_def np_binop_def)
qed

text \<open>
  The specification's example of the equivalence: precipitation
  \<open>[0,0,5,0,0,0,2,0]\<close> has the dry spells \<open>[2,3,1]\<close>, by the loop and by the
  detector on the zero mask.
\<close>

lemma dry_spell_example:
  "dry_spell_lengths (no_rain [0, 0, 5, 0, 0, 0, 2, 0]) = [2, 3, 1] \<and>
   event_lengths (no_rain [0, 0, 5, 0, 0, 0, 2, 0]) = Inr [2, 3, 1]"
  by (simp add: dry_spell_lengths_def no_rain_def event_lengths_def astype_int_def
      np_where_def np_subtract_def np_binop_def)

section \<open>The run-length detector on the specification's example\<close>

text \<open>
  Claim C7. On \<open>[T,T,F,T,T,T,F,T]\<close> the detector finds the run lengths
  \<open>[2,3,1]\<close>, and \<open>find_consecutive_events\<close> with minimum length 3 returns 1.
\<close>

theorem run_length_example:
  "event_lengths [True, True, False, True, True, True, False, True] = Inr [2, 3, 1] \<and>
   find_consecutive_events [True, True, False, True, True, True, False, True] 3 = Inr 1"
  by (simp add: find_consecutive_events_def event_lengths_def astype_int_def
      np_where_def np_subtract_def np_binop_def)

section \<open>The autoregressive loop is the prefix scan\<close>

lemma length_ar1_scan: "length (ar1_scan prev es) = length es"
  by (induction es arbitrary: prev) auto

lemma length_ar1_spec: "length (ar1_spec noise) = length noise"
  by (cases noise) (simp_all add: ar1_spec_def length_ar1_scan)

lemma ar1_scan_nth:
  "i < length es \<Longrightarrow>
   ar1_scan prev es ! i = es ! i + 0.3 * (if i = 0 then prev else ar1_scan prev es ! (i - 1))"
proof (induction es arbitrary: prev i)
  case Nil
  then show ?case by simp
next
  case (Cons e es)
  show ?case
  proof (cases i)
    case 0
    then show ?thesis by simp
  next
    case (Suc j)
    with Cons.prems have "j < length es" by simp
    from Cons.IH [OF this, of "e + 0.3 * prev"] Suc show ?thesis
      by (cases j) simp_all
  qed
qed

lemma ar1_spec_0: "noise \<noteq> [] \<Longrightarrow> ar1_spec noise ! 0 = noise ! 0"
  by (cases noise) (simp_all add: ar1_spec_def)

lemma ar1_spec_rec:
  assumes "0 < i" "i < length noise"
  shows "ar1_spec noise ! i = noise ! i + 0.3 * ar1_spec noise ! (i - 1)"
proof (cases noise)
  case Nil
  with assms show ?thesis by simp
next
  case (Cons e es)
  from assms obtain j where j: "i = Suc j" by (cases i) auto
  with assms Cons have "j < length es" by simp
  from ar1_scan_nth [OF this, of e] j Cons show ?thesis
    by (cases j) (simp_all add: ar1_spec_def)
qed

text \<open>
  The loop invariant: after the iterations \<open>1, ..., n - 1\<close> the array agrees with
  the scan below \<open>n\<close> and still holds the noise from \<open>n\<close> on.
\<close>

lemma ar1_loop_invariant:
  "1 \<le> n \<Longrightarrow> n \<le> length v \<Longrightarrow>
   length (ar1_loop n v) = length v \<and>
   (\<forall>j<length v. ar1_loop n v ! j = (if j < n then ar1_spec v ! j else v ! j))"
proof (induction n)
  case 0
  then show ?case by simp
next
  case (Suc n)
  show ?case
  proof (cases "n = 0")
    case True
    with Suc.prems show ?thesis
      by (auto simp: ar1_loop_def ar1_spec_0)
  next
    case False
    with Suc.prems have n: "1 \<le> n" "n \<le> length v" "n < length v" "0 < n" by simp_all
    from Suc.IH [OF n(1,2)] have len: "length (ar1_loop n v) = length v"
      and nth: "\<And>j. j < length v \<Longrightarrow> ar1_loop n v ! j = (if j < n then ar1_spec v ! j else v ! j)"
      by simp_all
    have step: "ar1_loop (Suc n) v = ar1_step n (ar1_loop n v)"
      using n(1) by (simp add: ar1_loop_def)
    have new: "ar1_loop n v ! n + 0.3 * ar1_loop n v ! (n - 1) = ar1_spec v ! n"
      using nth [of n] nth [of "n - 1"] n ar1_spec_rec [of n v] by simp
    show ?thesis
      unfolding step ar1_step_def new
      using len nth n by (auto simp: nth_list_update less_Suc_eq)
  qed
qed

lemma ar1_loop_eq_spec: "ar1_loop (length noise) noise = ar1_spec noise"
proof (cases noise)
  case Nil
  then show ?thesis by (simp add: ar1_loop_def ar1_spec_def)
next
  case (Cons e es)
  then have "1 \<le> length noise" by simp
  from ar1_loop_invariant [OF this order_refl] show ?thesis
    by (intro nth_equalityI) (simp_all add: length_ar1_spec)
qed

text \<open>
  Claim C6. For every noise array, the in-place loop of lines 28-29, run over
  \<open>range(1, len(noise))\<close>, leaves exactly the prefix scan with multiplier 0.3:
  the array keeps its length, \<open>variation[0] = noise[0]\<close>, and
  \<open>variation[i] = noise[i] + 0.3 * variation[i-1]\<close> for every later index.
\<close>

theorem ar1_loop_is_prefix_scan:
  "ar1_loop (length noise) noise = ar1_spec noise \<and>
   length (ar1_loop (length noise) noise) = length noise \<and>
   (noise \<noteq> [] \<longrightarrow> ar1_loop (length noise) noise ! 0 = noise ! 0) \<and>
   (\<forall>i. 0 < i \<and> i < length noise \<longrightarrow>
      ar1_loop (length noise) noise ! i
        = noise ! i + 0.3 * ar1_loop (length noise) noise ! (i - 1))"
  unfolding ar1_loop_eq_spec
  by (simp add: length_ar1_spec ar1_spec_0 ar1_spec_rec)

theorem ar1_loop_witness:
  "ar1_loop 3 [1, 2, 3] = [1, 23 / 10, 369 / 100]"
  using ar1_loop_is_prefix_scan [of "[1, 2, 3]"] by (simp add: ar1_spec_def numeral_3_eq_3)

section \<open>The generated series satisfies the invariants of the data model\<close>

lemma make_dates_eq:
  "make_dates d is =
     (if list_all (\<lambda>i. 1 \<le> d + int i \<and> d + int i \<le> max_ordinal) is
      then Inr (map (\<lambda>i. d + int i) is) else Inl OverflowError)"
  by (induction "is") (auto simp: add_days_def)

text \<open>
  The dates of line 22 exist as long as the last one, \<open>start_date + (n - 1)\<close>, is
  not after 9999-12-31, that is for \<open>n\<close> up to 2914269.
\<close>

lemma make_dates_range:
  "make_dates start_date [0..<n] =
     (if int n \<le> max_ordinal - start_date + 1
      then Inr (map (\<lambda>i. start_date + int i) [0..<n]) else Inl OverflowError)"
proof -
  have "list_all (\<lambda>i. 1 \<le> start_date + int i \<and> start_date + int i \<le> max_ordinal) [0..<n]
        \<longleftrightarrow> int n \<le> max_ordinal - start_date + 1"
  proof
    assume a: "list_all (\<lambda>i. 1 \<le> start_date + int i \<and> start_date + int i \<le> max_ordinal) [0..<n]"
    show "int n \<le> max_ordinal - start_date + 1"
    proof (cases n)
      case 0
      then show ?thesis by (simp add: max_ordinal_def start_date_def)
    next
      case (Suc m)
      with a have "start_date + int m \<le> max_ordinal" by (simp add: list_all_iff)
      with Suc show ?thesis by simp
    qed
  next
    assume "int n \<le> max_ordinal - start_date + 1"
    then show "list_all (\<lambda>i. 1 \<le> start_date + int i \<and> start_date + int i \<le> max_ordinal) [0..<n]"
      by (auto simp: list_all_iff start_date_def)
  qed
  then show ?thesis by (simp add: make_dates_eq)
qed

lemma date_range_limit: "max_ordinal - start_date + 1 = 2914269"
  by (simp add: max_ordinal_def start_date_def)

lemma length_ar1_loop: "length (ar1_loop n v) = length v"
proof -
  have "length (fold ar1_step is v) = length v" for "is"
    by (induction "is" arbitrary: v) (simp_all add: ar1_step_def)
  then show ?thesis by (simp add: ar1_loop_def)
qed

lemma clip_bounds: "lo \<le> hi \<Longrightarrow> lo \<le> clip v lo hi \<and> clip v lo hi \<le> hi"
  by (auto simp: clip_def)

lemma length_draw: "length (draw f n) = n"
  by (simp add: draw_def)

lemma rain_nonneg:
  assumes "(r, e) \<in> set (zip rain (draw f n))" "\<forall>i<n. 0 \<le> f i"
  shows "0 \<le> (e::real)"
proof -
  from assms(1) have "e \<in> set (draw f n)" by (rule set_zip_rightD)
  with assms(2) show ?thesis by (auto simp: draw_def)
qed

text \<open>
  Claim C3. Let the day count be at least 1 and let the exponential draws be
  non-negative, as draws of an exponential distribution are; the other five
  sources are arbitrary. As long as the dates stay within the calendar of
  \<open>datetime\<close> (at most 2914269 days from 2021-01-01) the generator returns a
  series, and that series has six sequences of the length of the day count,
  dates that advance by exactly one day, humidity in \<open>[10, 100]\<close>, precipitation
  at least 0 and wind speed in \<open>[0, 50]\<close>. For a larger day count line 22 raises
  OverflowError and no series is generated.
\<close>

theorem generated_series_invariants:
  assumes "1 \<le> days" and "\<forall>i<nat days. 0 \<le> exponential_rain rs i"
  shows "if days \<le> max_ordinal - start_date + 1
         then \<exists>ws. generate_weather_data days rs = Inr ws \<and> series_invariants (nat days) ws
         else generate_weather_data days rs = Inl OverflowError"
proof (cases "days \<le> max_ordinal - start_date + 1")
  case False
  with assms(1) show ?thesis
    by (simp add: generate_weather_data_def make_dates_range)
next
  case True
  with assms(1) have d: "make_dates start_date [0..<nat days]
      = Inr (map (\<lambda>i. start_date + int i) [0..<nat days])"
    by (simp add: make_dates_range)
  show ?thesis using assms True
    apply (simp add: generate_weather_data_def d Let_def series_invariants_def
        length_draw length_ar1_loop)
    apply (intro conjI ballI)
    apply (auto simp: clip_bounds dest: rain_nonneg)
    done
qed

theorem generated_series_witness:
  "\<exists>ws. generate_weather_data 2
          \<lparr>normal_temp = (\<lambda>i. 0), normal_humidity = (\<lambda>i. 0), uniform_rain = (\<lambda>i. 0),
           exponential_rain = (\<lambda>i. 1), normal_wind = (\<lambda>i. 0), normal_pressure = (\<lambda>i. 0)\<rparr> = Inr ws
        \<and> series_invariants 2 ws"
  using generated_series_invariants [of 2
          "\<lparr>normal_temp = (\<lambda>i. 0), normal_humidity = (\<lambda>i. 0), uniform_rain = (\<lambda>i. 0),
           exponential_rain = (\<lambda>i. 1), normal_wind = (\<lambda>i. 0), normal_pressure = (\<lambda>i. 0)\<rparr>"]
  by (simp add: date_range_limit)

section \<open>The length of the moving averages\<close>

lemma length_correlate_valid: "length (correlate_valid a v) = length a - length v + 1"
  by (simp add: correlate_valid_def)

text \<open>
  Claim C2, as the code has it. For a window \<open>w\<close> of at least 1 (the program uses
  7 and 30) and a series of \<open>N\<close> temperatures: when \<open>w <= N\<close> the moving average
  has \<open>N - w + 1\<close> elements; when \<open>1 <= N < w\<close> nothing is raised either, but
  \<open>np.convolve\<close> swaps its operands and the result has \<open>w - N + 1\<close> elements, so it
  is not empty; an empty series raises ValueError.
\<close>

theorem moving_average_length:
  assumes "1 \<le> w"
  shows "(temp = [] \<longrightarrow> moving_average temp w = Inl ValueError) \<and>
         (temp \<noteq> [] \<longrightarrow>
            (\<exists>out. moving_average temp w = Inr out \<and>
               length out = (if w \<le> length temp then length temp - w + 1
                             else w - length temp + 1)))"
proof (intro conjI impI)
  assume "temp = []"
  with assms show "moving_average temp w = Inl ValueError"
    by (auto simp: moving_average_def np_convolve_valid_def Let_def)
next
  assume ne: "temp \<noteq> []"
  show "\<exists>out. moving_average temp w = Inr out \<and>
          length out = (if w \<le> length temp then length temp - w + 1 else w - length temp + 1)"
  proof (cases "w \<le> length temp")
    case True
    with assms ne show ?thesis
      by (auto simp: moving_average_def np_convolve_valid_def Let_def length_correlate_valid)
  next
    case False
    with assms ne show ?thesis
      by (auto simp: moving_average_def np_convolve_valid_def Let_def length_correlate_valid)
  qed
qed

theorem moving_average_length_witness:
  "(\<exists>out. temp_7day [1, 2, 3, 4, 5, 6, 7, 8] = Inr out \<and> length out = 2) \<and>
   (\<exists>out. temp_30day [1, 2, 3, 4, 5, 6, 7, 8] = Inr out \<and> length out = 23)"
  using moving_average_length [of 7 "[1, 2, 3, 4, 5, 6, 7, 8]"]
    moving_average_length [of 30 "[1, 2, 3, 4, 5, 6, 7, 8]"]
  by (simp add: temp_7day_def temp_30day_def numeral_2_eq_2)

text \<open>
  The claim as written fails on a three-day series: the window 7 is longer than
  the series, and the 7-day average is an array of five values, not an empty one.
\<close>

theorem moving_average_short_series_not_empty:
  "map_sum id length (temp_7day [1, 2, 3]) = Inr 5 \<and>
   temp_7day [1, 2, 3] \<noteq> Inr []"
  by (simp add: temp_7day_def moving_average_def np_convolve_valid_def correlate_valid_def)

section \<open>Rounding to double\<close>

lemma round_even_of_int: "round_even (of_int k) = k"
  by (simp add: round_even_def)

lemma round_even_near: "\<bar>of_int (round_even y) - y\<bar> \<le> 1 / 2"
proof -
  have "of_int \<lfloor>y\<rfloor> \<le> y" "y < of_int \<lfloor>y\<rfloor> + 1" by linarith+
  then show ?thesis by (auto simp: round_even_def Let_def)
qed

lemma round_even_eqI:
  assumes "of_int k - 1 / 2 < y" "y < of_int k + 1 / 2"
  shows "round_even y = k"
proof -
  have n: "\<bar>of_int (round_even y) - y\<bar> \<le> 1 / 2" by (rule round_even_near)
  with assms have "\<bar>(of_int (round_even y) :: real) - of_int k\<bar> < 1" by linarith
  then have "\<bar>round_even y - k\<bar> < 1" by (metis of_int_diff of_int_abs of_int_less_1_iff)
  then show ?thesis by simp
qed

lemma pow2_powr: "pow2 e = 2 powr (of_int e)"
proof (cases "0 \<le> e")
  case True
  then show ?thesis by (simp add: pow2_def powr_real_of_int)
next
  case False
  then show ?thesis by (simp add: pow2_def powr_real_of_int field_simps)
qed

lemma pow2_pos: "0 < pow2 e"
  by (simp add: pow2_powr)

lemma pow2_add: "pow2 (a + b) = pow2 a * pow2 b"
  by (simp add: pow2_powr powr_add)

lemma pow2_0: "pow2 0 = 1"
  by (simp add: pow2_def)

text \<open>The rounding of a number whose binary exponent \<open>e\<close> is known.\<close>

lemma round53_eqI:
  assumes "pow2 e \<le> \<bar>x\<bar>" "\<bar>x\<bar> < pow2 (e + 1)"
  shows "round53 x = of_int (round_even (x * pow2 (52 - e))) * pow2 (e - 52)"
proof -
  from assms(1) pow2_pos [of e] have x: "0 < \<bar>x\<bar>" "x \<noteq> 0" by auto
  have "\<lfloor>log 2 \<bar>x\<bar>\<rfloor> = e"
    using assms x(1) by (simp add: floor_log_eq_powr_iff pow2_powr)
  with x(2) show ?thesis by (simp add: round53_def)
qed

lemma round53_exponent:
  assumes "x \<noteq> 0"
  obtains e where "pow2 e \<le> \<bar>x\<bar>" "\<bar>x\<bar> < pow2 (e + 1)"
proof -
  from assms have "0 < \<bar>x\<bar>" by simp
  then have "2 powr (of_int \<lfloor>log 2 \<bar>x\<bar>\<rfloor>) \<le> \<bar>x\<bar> \<and>
      \<bar>x\<bar> < 2 powr (of_int (\<lfloor>log 2 \<bar>x\<bar>\<rfloor> + 1))"
    using floor_log_eq_powr_iff [of "\<bar>x\<bar>" 2 "\<lfloor>log 2 \<bar>x\<bar>\<rfloor>"] by simp
  then show ?thesis using that [of "\<lfloor>log 2 \<bar>x\<bar>\<rfloor>"] by (simp add: pow2_powr)
qed

text \<open>The relative error of one rounding is at most the unit roundoff \<open>2^-53\<close>.\<close>

lemma round53_rel_error: "\<bar>round53 x - x\<bar> \<le> \<bar>x\<bar> / 2 ^ 53"
proof (cases "x = 0")
  case True
  then show ?thesis by (simp add: round53_def)
next
  case False
  then obtain e where e: "pow2 e \<le> \<bar>x\<bar>" "\<bar>x\<bar> < pow2 (e + 1)" by (rule round53_exponent)
  let ?y = "x * pow2 (52 - e)"
  have r: "round53 x = of_int (round_even ?y) * pow2 (e - 52)" using e by (rule round53_eqI)
  have one: "pow2 (52 - e) * pow2 (e - 52) = 1"
    using pow2_add [of "52 - e" "e - 52"] by (simp add: pow2_0)
  have "round53 x - x = (of_int (round_even ?y) - ?y) * pow2 (e - 52)"
    using one by (simp add: r algebra_simps)
  then have "\<bar>round53 x - x\<bar> = \<bar>of_int (round_even ?y) - ?y\<bar> * pow2 (e - 52)"
    using pow2_pos [of "e - 52"] by (simp add: abs_mult)
  also have "\<dots> \<le> 1 / 2 * pow2 (e - 52)"
    using round_even_near [of ?y] pow2_pos [of "e - 52"] by (intro mult_right_mono) simp_all
  also have "\<dots> = pow2 e / 2 ^ 53"
    using pow2_add [of e "- 52"] by (simp add: pow2_def)
  also have "\<dots> \<le> \<bar>x\<bar> / 2 ^ 53" using e(1) by (simp add: divide_right_mono)
  finally show ?thesis .
qed

text \<open>Integers below \<open>2^53\<close> in absolute value are doubles: rounding leaves them.\<close>

lemma round53_of_int:
  assumes "\<bar>n\<bar> < 2 ^ 53"
  shows "round53 (of_int n) = of_int n"
proof (cases "n = 0")
  case True
  then show ?thesis by (simp add: round53_def)
next
  case False
  then have "(of_int n :: real) \<noteq> 0" by simp
  then obtain e where e: "pow2 e \<le> \<bar>of_int n :: real\<bar>" "\<bar>of_int n :: real\<bar> < pow2 (e + 1)"
    by (rule round53_exponent)
  have e_hi: "e \<le> 52"
  proof (rule ccontr)
    assume "\<not> e \<le> 52"
    then have "53 \<le> e" by simp
    then have "(2::real) powr 53 \<le> 2 powr (of_int e)" by (intro powr_mono) simp_all
    then have "(2::real) ^ 53 \<le> pow2 e" by (simp add: pow2_powr)
    with e(1) have "(2::real) ^ 53 \<le> \<bar>of_int n\<bar>" by linarith
    then have "(2::int) ^ 53 \<le> \<bar>n\<bar>"
      by (metis of_int_abs of_int_le_iff of_int_numeral of_int_power)
    with assms show False by simp
  qed
  have "pow2 (52 - e) = of_int (2 ^ nat (52 - e))" using e_hi by (simp add: pow2_def)
  then have "of_int n * pow2 (52 - e) = (of_int (n * 2 ^ nat (52 - e)) :: real)" by simp
  then have "round_even (of_int n * pow2 (52 - e)) = n * 2 ^ nat (52 - e)"
    by (simp only: round_even_of_int)
  moreover have "of_int (2 ^ nat (52 - e)) * pow2 (e - 52) = (1::real)"
    using pow2_add [of "52 - e" "e - 52"] e_hi by (simp add: pow2_def)
  ultimately show ?thesis
    using round53_eqI [OF e] by (simp add: algebra_simps)
qed

lemma round53_0: "round53 0 = 0"
  by (simp add: round53_def)

lemma round53_1: "round53 1 = 1"
  using round53_of_int [of 1] by simp

lemma round53_numeral: "(numeral w :: int) < 2 ^ 53 \<Longrightarrow> round53 (numeral w) = numeral w"
  using round53_of_int [of "numeral w"] by simp

lemma round53_neg_numeral:
  "(numeral w :: int) < 2 ^ 53 \<Longrightarrow> round53 (- numeral w) = - numeral w"
  using round53_of_int [of "- numeral w"] by simp

lemma round53_neg_1: "round53 (- 1) = - 1"
  using round53_of_int [of "- 1"] by simp

lemmas round53_ints = round53_0 round53_1 round53_neg_1 round53_numeral round53_neg_numeral

lemma ieee_ops:
  "rnd ieee = round53" "sum_of ieee = foldl (\<lambda>s x. round53 (s + x)) 0"
  by (simp_all add: ieee_def)

lemma ieee_rel_error: "\<bar>rnd ieee x - x\<bar> \<le> (1 / 2 ^ 53) * \<bar>x\<bar>"
  using round53_rel_error [of x] by (simp add: ieee_ops)

lemma ieee_example_values:
  "np_mean ieee [5, 5, 5] = Fin 5" "np_std ieee [5, 5, 5] = Fin 0"
  "np_mean ieee [1, 3, 1, 3] = Fin 2" "np_std ieee [1, 3, 1, 3] = Fin 1"
  "np_mean ieee [0, 2, 0, 2] = Fin 1" "np_std ieee [0, 2, 0, 2] = Fin 1"
  by (simp_all add: np_mean_def np_std_def np_sum_def ieee_ops round53_ints)

section \<open>Series without rain\<close>

text \<open>
  Claim C5, as the code has it. Nothing tests whether a rainy day exists. On a
  series with no day of positive precipitation the mean of line 229 is taken
  over the empty selection and is the NaN of 0/0 (whatever the rounding), and the percentile of line
  149 is whatever \<open>np.percentile\<close> makes of an empty array; no report of
  "no precipitation observed" replaces either.
\<close>

theorem no_rain_is_not_guarded:
  assumes "\<forall>p\<in>set prec. \<not> p > 0"
  shows "avg_rainy_day fo prec = NaN \<and> heavy_rain_threshold on_empty prec = on_empty"
proof -
  from assms have "filter (\<lambda>p. p > 0) prec = []"
    by (simp add: filter_empty_conv)
  then show ?thesis
    by (simp add: avg_rainy_day_def heavy_rain_threshold_def np_mean_def np_sum_def
        np_percentile_def)
qed

theorem no_rain_witness:
  "avg_rainy_day ieee [0, 0] = NaN \<and> heavy_rain_threshold (Inr NaN) [0, 0] = Inr NaN"
proof -
  have "\<forall>p\<in>set [0, 0::real]. \<not> p > 0" by simp
  from no_rain_is_not_guarded [OF this] show ?thesis by simp
qed

text \<open>
  The claim as written fails on three dry days: the mean per rainy day is
  computed over the empty set and is NaN, and the percentile call receives the
  empty array, whether the library answers with NaN or with an IndexError.
\<close>

theorem dry_series_mean_is_nan:
  "avg_rainy_day ieee [0, 0, 0] = NaN \<and>
   heavy_rain_threshold (Inr NaN) [0, 0, 0] = Inr NaN \<and>
   heavy_rain_threshold (Inl IndexError) [0, 0, 0] = Inl IndexError"
  by (simp add: avg_rainy_day_def heavy_rain_threshold_def np_mean_def np_sum_def
      np_percentile_def)

section \<open>The most extreme day is the first day with the maximal score\<close>

lemma f_le_not_nan: "f_le a b \<Longrightarrow> \<not> isnan a \<and> \<not> isnan b"
  by (cases a; cases b) simp_all

lemma f_le_refl: "\<not> isnan a \<Longrightarrow> f_le a a"
  by (cases a) simp_all

lemma f_le_trans: "f_le a b \<Longrightarrow> f_le b c \<Longrightarrow> f_le a c"
  by (cases a; cases b; cases c) simp_all

lemma f_le_total: "\<not> isnan a \<Longrightarrow> \<not> isnan b \<Longrightarrow> f_le a b \<or> f_le b a"
  by (cases a; cases b) auto

lemma argmax_loop_first_max:
  assumes "length ys = i" "ind < i" "mp = ys ! ind" "\<not> isnan mp"
    and "\<forall>j<i. f_le (ys ! j) mp" "\<forall>j<ind. \<not> f_le mp (ys ! j)"
  shows "first_max (ys @ xs) (argmax_loop xs i mp ind)"
  using assms
proof (induction xs arbitrary: ys i mp ind)
  case Nil
  have "\<not> isnan (ys ! j)" if "j < ind" for j
  proof -
    from that Nil(2) have "j < i" by simp
    with Nil(5) have "f_le (ys ! j) mp" by simp
    then show ?thesis by (simp add: f_le_not_nan)
  qed
  with Nil show ?case
    by (simp add: first_max_def)
next
  case (Cons x xs)
  have app: "(ys @ [x]) ! j = ys ! j" if "j < i" for j
    using that Cons.prems(1) by (simp add: nth_append)
  have last: "(ys @ [x]) ! i = x"
    using Cons.prems(1) by (simp add: nth_append)
  have prev_num: "\<not> isnan (ys ! j)" if "j < i" for j
    using that Cons.prems(5) f_le_not_nan by blast
  show ?case
  proof (cases "f_le x mp")
    case True
    have "first_max ((ys @ [x]) @ xs) (argmax_loop xs (i + 1) mp ind)"
    proof (rule Cons.IH)
      show "length (ys @ [x]) = i + 1" using Cons.prems(1) by simp
      show "ind < i + 1" using Cons.prems(2) by simp
      show "mp = (ys @ [x]) ! ind" using Cons.prems(2,3) app by simp
      show "\<not> isnan mp" by (rule Cons.prems(4))
      show "\<forall>j<i + 1. f_le ((ys @ [x]) ! j) mp"
        using Cons.prems(5) True app last by (auto simp: less_Suc_eq)
      show "\<forall>j<ind. \<not> f_le mp ((ys @ [x]) ! j)"
        using Cons.prems(2,6) app by simp
    qed
    with True show ?thesis by simp
  next
    case False
    show ?thesis
    proof (cases "isnan x")
      case True
      have "first_max (ys @ x # xs) i"
        unfolding first_max_def
      proof (intro conjI allI impI)
        show "i < length (ys @ x # xs)" using Cons.prems(1) by simp
      next
        fix j assume "j < length (ys @ x # xs)"
        show "isnan ((ys @ x # xs) ! i) \<or> f_le ((ys @ x # xs) ! j) ((ys @ x # xs) ! i)"
          using True Cons.prems(1) by (simp add: nth_append)
      next
        fix j assume j: "j < i"
        then have e: "(ys @ x # xs) ! j = ys ! j" "(ys @ x # xs) ! i = x"
          using Cons.prems(1) by (simp_all add: nth_append)
        show "\<not> isnan ((ys @ x # xs) ! j)" using prev_num [OF j] e by simp
        from True have "x = NaN" by (cases x) simp_all
        then show "\<not> f_le ((ys @ x # xs) ! i) ((ys @ x # xs) ! j)" using e by simp
      qed
      with False True show ?thesis by simp
    next
      case num: False
      from f_le_total [OF num Cons.prems(4)] False have up: "f_le mp x" by simp
      have "first_max ((ys @ [x]) @ xs) (argmax_loop xs (i + 1) x i)"
      proof (rule Cons.IH)
        show "length (ys @ [x]) = i + 1" using Cons.prems(1) by simp
        show "i < i + 1" by simp
        show "x = (ys @ [x]) ! i" using last by simp
        show "\<not> isnan x" by (rule num)
        show "\<forall>j<i + 1. f_le ((ys @ [x]) ! j) x"
        proof (intro allI impI)
          fix j assume "j < i + 1"
          then consider "j < i" | "j = i" by linarith
          then show "f_le ((ys @ [x]) ! j) x"
          proof cases
            case 1
            with Cons.prems(5) have "f_le (ys ! j) mp" by simp
            from f_le_trans [OF this up] app [OF 1] show ?thesis by simp
          next
            case 2
            with last f_le_refl [OF num] show ?thesis by simp
          qed
        qed
        show "\<forall>j<i. \<not> f_le x ((ys @ [x]) ! j)"
        proof (intro allI impI)
          fix j assume j: "j < i"
          show "\<not> f_le x ((ys @ [x]) ! j)"
          proof
            assume "f_le x ((ys @ [x]) ! j)"
            with app [OF j] have "f_le x (ys ! j)" by simp
            moreover from Cons.prems(5) j have "f_le (ys ! j) mp" by simp
            ultimately have "f_le x mp" by (rule f_le_trans)
            with False show False by simp
          qed
        qed
      qed
      with False num show ?thesis by simp
    qed
  qed
qed

lemma np_argmax_first_max:
  assumes "s \<noteq> []"
  shows "\<exists>k. np_argmax s = Inr k \<and> first_max s k"
proof -
  from assms obtain x xs where s: "s = x # xs" by (cases s) auto
  show ?thesis
  proof (cases "isnan x")
    case True
    then show ?thesis by (simp add: s np_argmax_def first_max_def)
  next
    case False
    have "first_max ([x] @ xs) (argmax_loop xs 1 x 0)"
      by (rule argmax_loop_first_max) (simp_all add: False f_le_refl)
    with False show ?thesis by (simp add: s np_argmax_def)
  qed
qed

lemma first_max_ties: "first_max s k \<Longrightarrow> j < length s \<Longrightarrow> s ! j = s ! k \<Longrightarrow> k \<le> j"
proof (rule ccontr)
  assume fm: "first_max s k" and "j < length s" and eq: "s ! j = s ! k" and "\<not> k \<le> j"
  then have "j < k" by simp
  with fm have "\<not> isnan (s ! j)" "\<not> f_le (s ! k) (s ! j)"
    by (simp_all add: first_max_def)
  with eq f_le_refl show False by simp
qed

lemma length_zscore: "length (zscore fo a) = length a"
  by (simp add: zscore_def)

lemma extreme_score_length:
  assumes "length wind = length temp" "length prec = length temp"
  shows "\<exists>score. extreme_score fo temp wind prec = Inr score \<and> length score = length temp"
  using assms
  by (simp add: extreme_score_def np_binop_def temp_normalized_def length_zscore)

text \<open>
  Claim C10. For every series of at least one day whose temperature, wind
  speed and precipitation have one length, the composite score of line 177 is
  computed without an exception, whatever the rounding of the arithmetic, and
  \<open>np.argmax\<close> returns a day \<open>k\<close> such that no
  day has a larger score, every earlier day has a strictly smaller score, and
  hence every day with the same score as day \<open>k\<close> has an index of at least \<open>k\<close>:
  among the days that share the maximum, the earliest is reported. (When a
  score is NaN it counts as the maximum, as in NumPy.)
\<close>

theorem most_extreme_day_is_first_maximum:
  assumes "length wind = length temp" "length prec = length temp" "temp \<noteq> []"
  shows "\<exists>score k. extreme_score fo temp wind prec = Inr score \<and>
           most_extreme_day fo temp wind prec = Inr k \<and>
           length score = length temp \<and> k < length score \<and>
           (\<forall>j<length score. isnan (score ! k) \<or> f_le (score ! j) (score ! k)) \<and>
           (\<forall>j<k. \<not> isnan (score ! j) \<and> \<not> f_le (score ! k) (score ! j)) \<and>
           (\<forall>j<length score. score ! j = score ! k \<longrightarrow> k \<le> j)"
proof -
  from extreme_score_length [OF assms(1,2), of fo] obtain score
    where sc: "extreme_score fo temp wind prec = Inr score" "length score = length temp"
    by blast
  with assms(3) have "score \<noteq> []" by auto
  from np_argmax_first_max [OF this] obtain k
    where k: "np_argmax score = Inr k" "first_max score k" by blast
  from k(1) sc(1) have "most_extreme_day fo temp wind prec = Inr k"
    by (simp add: most_extreme_day_def)
  moreover from k(2) have "k < length score"
    "\<forall>j<length score. isnan (score ! k) \<or> f_le (score ! j) (score ! k)"
    "\<forall>j<k. \<not> isnan (score ! j) \<and> \<not> f_le (score ! k) (score ! j)"
    by (simp_all add: first_max_def)
  moreover have "\<forall>j<length score. score ! j = score ! k \<longrightarrow> k \<le> j"
    using first_max_ties [OF k(2)] by blast
  ultimately show ?thesis using sc by blast
qed

lemma tie_example_score:
  "extreme_score ieee [1, 3, 1, 3] [1, 3, 1, 3] [0, 2, 0, 2]
     = Inr [Fin (- 1), Fin 3, Fin (- 1), Fin 3]"
  by (simp add: extreme_score_def temp_normalized_def zscore_def ieee_example_values
      f_sub_def np_binop_def ieee_ops round53_ints)

theorem most_extreme_day_witness:
  "extreme_score ieee [1, 3, 1, 3] [1, 3, 1, 3] [0, 2, 0, 2]
     = Inr [Fin (- 1), Fin 3, Fin (- 1), Fin 3] \<and>
   most_extreme_day ieee [1, 3, 1, 3] [1, 3, 1, 3] [0, 2, 0, 2] = Inr 1"
proof -
  from most_extreme_day_is_first_maximum [of "[1, 3, 1, 3]" "[1, 3, 1, 3]" "[0, 2, 0, 2]" ieee]
  obtain score k where
    sc: "extreme_score ieee [1, 3, 1, 3] [1, 3, 1, 3] [0, 2, 0, 2] = Inr score"
    and k: "most_extreme_day ieee [1, 3, 1, 3] [1, 3, 1, 3] [0, 2, 0, 2] = Inr k" "k < length score"
    and mx: "\<forall>j<length score. isnan (score ! k) \<or> f_le (score ! j) (score ! k)"
    and fst: "\<forall>j<k. \<not> isnan (score ! j) \<and> \<not> f_le (score ! k) (score ! j)"
    by auto
  from sc have score: "score = [Fin (- 1), Fin 3, Fin (- 1), Fin 3]"
    by (simp add: tie_example_score)
  from k(2) score consider "k = 0" | "k = 1" | "k = 2" | "k = 3"
    by (auto simp: less_Suc_eq numeral_eq_Suc)
  then have "k = 1"
  proof cases
    case 1
    with mx [rule_format, of 1] score show ?thesis by simp
  next
    case 2
    then show ?thesis .
  next
    case 3
    with mx [rule_format, of 1] score show ?thesis by simp
  next
    case 4
    with fst [rule_format, of 1] score show ?thesis by simp
  qed
  with k(1) show ?thesis by (simp add: tie_example_score)
qed

section \<open>Constant variables: z-scores and correlations\<close>

lemma map_constant: "\<forall>x\<in>set a. x = c \<Longrightarrow> map f a = replicate (length a) (f c)"
  by (induction a) simp_all

text \<open>A division by a zero standard deviation is carried out and is never finite.\<close>

lemma f_div_by_zero: "f_div fo w (Fin 0) = NaN \<or> f_div fo w (Fin 0) = PInf \<or> f_div fo w (Fin 0) = NInf"
  by (cases w) simp_all

lemma f_div_nonfinite:
  "w = NaN \<or> w = PInf \<or> w = NInf \<Longrightarrow>
   f_div fo w s = NaN \<or> f_div fo w s = PInf \<or> f_div fo w s = NInf"
  by (cases w; cases s) simp_all

lemma f_clip_nonfinite:
  "w = NaN \<or> w = PInf \<or> w = NInf \<Longrightarrow>
   f_clip w (- 1) 1 = NaN \<or> f_clip w (- 1) 1 = Fin 1 \<or> f_clip w (- 1) 1 = Fin (- 1)"
  by auto

lemma np_corrcoef_nth:
  "i < length m \<Longrightarrow> j < length m \<Longrightarrow>
   np_corrcoef fo m ! i ! j =
     f_clip (f_div fo (f_div fo (np_cov fo (m ! i) (m ! j)) (f_sqrt fo (np_cov fo (m ! i) (m ! i))))
                      (f_sqrt fo (np_cov fo (m ! j) (m ! j)))) (- 1) 1"
  by (simp add: np_corrcoef_def Let_def)

lemma corrcoef_zero_std:
  assumes "i < length m" "j < length m" "f_sqrt fo (np_cov fo (m ! i) (m ! i)) = Fin 0"
  shows "np_corrcoef fo m ! i ! j = NaN \<or> np_corrcoef fo m ! i ! j = Fin 1 \<or>
         np_corrcoef fo m ! i ! j = Fin (- 1)"
    and "np_corrcoef fo m ! j ! i = NaN \<or> np_corrcoef fo m ! j ! i = Fin 1 \<or>
         np_corrcoef fo m ! j ! i = Fin (- 1)"
proof -
  show "np_corrcoef fo m ! i ! j = NaN \<or> np_corrcoef fo m ! i ! j = Fin 1 \<or>
        np_corrcoef fo m ! i ! j = Fin (- 1)"
    unfolding np_corrcoef_nth [OF assms(1,2)] assms(3)
    by (intro f_clip_nonfinite f_div_nonfinite f_div_by_zero)
  show "np_corrcoef fo m ! j ! i = NaN \<or> np_corrcoef fo m ! j ! i = Fin 1 \<or>
        np_corrcoef fo m ! j ! i = Fin (- 1)"
    unfolding np_corrcoef_nth [OF assms(2,1)] assms(3)
    by (intro f_clip_nonfinite f_div_by_zero)
qed

text \<open>
  Claim C4, as the code has it. Nothing tests a variance before dividing, and
  nothing is raised or reported as undefined. For a variable whose values are
  all equal to \<open>c\<close>, every z-score of lines 173-175 is the one quotient of
  \<open>c - mean\<close> by the computed standard deviation. Whenever that standard deviation
  is exactly 0 the z-scores are NaN or infinite, and they are NaN when the mean
  is computed exactly (as for \<open>[5, 5, 5]\<close>); every entry of the correlation
  matrix in the row and in the column of a variable with standard deviation 0
  is the clipped result of a division by zero: NaN, 1 or -1. When rounding
  leaves a standard deviation other than 0, the quotient is simply returned.
\<close>

theorem constant_variable_is_divided_unchecked:
  assumes "\<forall>x\<in>set a. x = c"
  shows "zscore fo a
           = replicate (length a) (f_div fo (f_sub fo (Fin c) (np_mean fo a)) (np_std fo a)) \<and>
         (np_std fo a = Fin 0 \<longrightarrow>
            (\<forall>z\<in>set (zscore fo a). z = NaN \<or> z = PInf \<or> z = NInf)) \<and>
         (np_std fo a = Fin 0 \<and> np_mean fo a = Fin c \<and> rnd fo 0 = 0 \<longrightarrow>
            zscore fo a = replicate (length a) NaN \<and>
            temp_normalized fo a = replicate (length a) NaN) \<and>
         (\<forall>m i j. i < length m \<and> j < length m \<and> m ! i = a \<and>
              f_sqrt fo (np_cov fo a a) = Fin 0 \<longrightarrow>
            (np_corrcoef fo m ! i ! j = NaN \<or> np_corrcoef fo m ! i ! j = Fin 1 \<or>
             np_corrcoef fo m ! i ! j = Fin (- 1)) \<and>
            (np_corrcoef fo m ! j ! i = NaN \<or> np_corrcoef fo m ! j ! i = Fin 1 \<or>
             np_corrcoef fo m ! j ! i = Fin (- 1)))"
proof (intro conjI allI impI)
  show z: "zscore fo a
      = replicate (length a) (f_div fo (f_sub fo (Fin c) (np_mean fo a)) (np_std fo a))"
    unfolding zscore_def using assms by (rule map_constant)
  {
    assume "np_std fo a = Fin 0"
    then show "\<forall>z\<in>set (zscore fo a). z = NaN \<or> z = PInf \<or> z = NInf"
      using f_div_by_zero by (auto simp: zscore_def)
  }
  {
    assume h: "np_std fo a = Fin 0 \<and> np_mean fo a = Fin c \<and> rnd fo 0 = 0"
    then show n: "zscore fo a = replicate (length a) NaN"
      by (simp add: z f_sub_def)
    show "temp_normalized fo a = replicate (length a) NaN"
      by (simp add: temp_normalized_def n)
  }
next
  fix m :: "real list list" and i j
  assume h: "i < length m \<and> j < length m \<and> m ! i = a \<and> f_sqrt fo (np_cov fo a a) = Fin 0"
  then have s: "f_sqrt fo (np_cov fo (m ! i) (m ! i)) = Fin 0" by simp
  from h have ij: "i < length m" "j < length m" by simp_all
  show "np_corrcoef fo m ! i ! j = NaN \<or> np_corrcoef fo m ! i ! j = Fin 1 \<or>
        np_corrcoef fo m ! i ! j = Fin (- 1)"
    using ij s by (rule corrcoef_zero_std(1))
  show "np_corrcoef fo m ! j ! i = NaN \<or> np_corrcoef fo m ! j ! i = Fin 1 \<or>
        np_corrcoef fo m ! j ! i = Fin (- 1)"
    using ij s by (rule corrcoef_zero_std(2))
qed

lemma ieee_constant_row:
  "np_cov ieee [5, 5, 5] [5, 5, 5] = Fin 0" "np_cov ieee [5, 5, 5] [1, 2, 3] = Fin 0"
  "np_cov ieee [1, 2, 3] [5, 5, 5] = Fin 0"
  by (simp_all add: np_cov_def mean_r_def np_sum_def ieee_ops round53_ints)

theorem constant_variable_witness:
  "zscore ieee [5, 5, 5] = [NaN, NaN, NaN] \<and>
   np_corrcoef ieee [[5, 5, 5], [1, 2, 3]] ! 0 ! 1 = NaN \<and>
   np_corrcoef ieee [[5, 5, 5], [1, 2, 3]] ! 1 ! 0 = NaN"
proof -
  have c: "\<forall>x\<in>set [5, 5, 5::real]. x = 5" by simp
  have "np_std ieee [5, 5, 5] = Fin 0 \<and> np_mean ieee [5, 5, 5] = Fin 5 \<and> rnd ieee 0 = 0"
    by (simp add: ieee_example_values ieee_ops round53_ints)
  with constant_variable_is_divided_unchecked [OF c, of ieee]
  have "zscore ieee [5, 5, 5] = replicate (length [5, 5, 5::real]) NaN" by blast
  then have "zscore ieee [5, 5, 5] = [NaN, NaN, NaN]" by (simp add: numeral_3_eq_3)
  moreover have "np_corrcoef ieee [[5, 5, 5], [1, 2, 3]] ! 0 ! 1 = NaN"
    by (simp add: np_corrcoef_nth ieee_constant_row ieee_ops round53_ints)
  moreover have "np_corrcoef ieee [[5, 5, 5], [1, 2, 3]] ! 1 ! 0 = NaN"
  proof -
    have "f_div ieee (f_div ieee (Fin 0) s) (Fin 0) = NaN" for s
      by (cases s) (simp_all add: ieee_ops round53_ints)
    then show ?thesis
      by (simp add: np_corrcoef_nth ieee_constant_row ieee_ops round53_ints)
  qed
  ultimately show ?thesis by simp
qed

text \<open>
  The claim as written fails on a series whose temperature is 5 on each of
  three days: in double arithmetic the mean is 5, the standard deviation 0 and
  the z-scores three NaN, produced silently, and the most extreme day is
  reported as day 0.
\<close>

theorem constant_temperature_silent_nan:
  "temp_normalized ieee [5, 5, 5] = [NaN, NaN, NaN] \<and>
   extreme_score ieee [5, 5, 5] [1, 3, 1] [0, 2, 0] = Inr [NaN, NaN, NaN] \<and>
   most_extreme_day ieee [5, 5, 5] [1, 3, 1] [0, 2, 0] = Inr 0"
proof -
  have z: "zscore ieee [5, 5, 5] = [NaN, NaN, NaN]"
    by (simp add: zscore_def ieee_example_values f_sub_def ieee_ops round53_ints)
  then have t: "temp_normalized ieee [5, 5, 5] = [NaN, NaN, NaN]"
    by (simp add: temp_normalized_def)
  have l: "length (zscore ieee [1, 3, 1]) = 3" "length (zscore ieee [0, 2, 0]) = 3"
    by (simp_all add: zscore_def)
  have e: "extreme_score ieee [5, 5, 5] [1, 3, 1] [0, 2, 0] = Inr [NaN, NaN, NaN]"
    unfolding extreme_score_def t
    by (simp add: np_binop_def zscore_def)
  with t show ?thesis by (simp add: most_extreme_day_def np_argmax_def)
qed

section \<open>The label of the linear trend\<close>

lemma f_gt_Fin_0: "f_gt (Fin x) (Fin 0) \<longleftrightarrow> x > 0"
  by (auto simp: f_gt_def)

lemma np_arange_Nil: "np_arange n = [] \<longleftrightarrow> n = 0"
  by (simp add: np_arange_def)

lemma length_np_arange: "length (np_arange n) = n"
  by (simp add: np_arange_def)

lemma linear_trend_fit:
  assumes "temp \<noteq> []" "lstsq (np_arange (length temp)) temp = Inr (slope, icpt)"
  shows "linear_trend lstsq temp = Inr (slope, trend_direction slope)"
  using assms by (simp add: linear_trend_def np_polyfit1_def np_arange_Nil length_np_arange)

lemma rss_expand:
  "(\<Sum>p\<leftarrow>ps. (snd p - (s * fst p + i))\<^sup>2)
     = (\<Sum>p\<leftarrow>ps. (snd p - (b * fst p + a))\<^sup>2)
       + 2 * (b - s) * (\<Sum>p\<leftarrow>ps. (snd p - (b * fst p + a)) * fst p)
       + 2 * (a - i) * (\<Sum>p\<leftarrow>ps. snd p - (b * fst p + a))
       + (\<Sum>p\<leftarrow>ps. ((b - s) * fst p + (a - i))\<^sup>2)"
  for a b s i :: real
  by (induction ps) (simp_all add: algebra_simps power2_eq_square)

lemma residual_sum:
  "(\<Sum>p\<leftarrow>ps. snd p - (b * fst p + a))
     = (\<Sum>p\<leftarrow>ps. snd p) - b * (\<Sum>p\<leftarrow>ps. fst p) - real (length ps) * a"
  for a b :: real
  by (induction ps) (simp_all add: algebra_simps)

lemma residual_moment:
  "(\<Sum>p\<leftarrow>ps. (snd p - (b * fst p + a)) * fst p)
     = (\<Sum>p\<leftarrow>ps. fst p * snd p) - b * (\<Sum>p\<leftarrow>ps. fst p * fst p) - a * (\<Sum>p\<leftarrow>ps. fst p)"
  for a b :: real
  by (induction ps) (simp_all add: algebra_simps)

lemma product_sum_expand:
  "(\<Sum>p\<leftarrow>ps. (fst p - mx) * (snd p - my))
     = (\<Sum>p\<leftarrow>ps. fst p * snd p) - mx * (\<Sum>p\<leftarrow>ps. snd p) - my * (\<Sum>p\<leftarrow>ps. fst p)
       + real (length ps) * (mx * my)"
  for mx my :: real
  by (induction ps) (simp_all add: algebra_simps)

lemma square_sum_expand:
  "(\<Sum>p\<leftarrow>ps. (fst p - mx) * (fst p - mx))
     = (\<Sum>p\<leftarrow>ps. fst p * fst p) - 2 * mx * (\<Sum>p\<leftarrow>ps. fst p) + real (length ps) * (mx * mx)"
  for mx :: real
  by (induction ps) (simp_all add: algebra_simps)

text \<open>
  The line of \<open>ols_slope\<close> and \<open>ols_intercept\<close> is a least-squares line: no other
  line has a smaller sum of squared residuals.
\<close>

lemma ols_minimises_rss:
  assumes len: "length x = length y"
    and sxx: "sum_list (map (\<lambda>a. (a - avg x) * (a - avg x)) x) \<noteq> 0"
  shows "rss x y (ols_slope x y) (ols_intercept x y) \<le> rss x y s i"
proof -
  define ps where "ps = zip x y"
  define n where "n = real (length ps)"
  define XA where "XA = (\<Sum>p\<leftarrow>ps. fst p)"
  define XB where "XB = (\<Sum>p\<leftarrow>ps. snd p)"
  define XAB where "XAB = (\<Sum>p\<leftarrow>ps. fst p * snd p)"
  define XAA where "XAA = (\<Sum>p\<leftarrow>ps. fst p * fst p)"
  define b where "b = ols_slope x y"
  define a where "a = ols_intercept x y"
  define Sxx where "Sxx = sum_list (map (\<lambda>a. (a - avg x) * (a - avg x)) x)"
  define Sxy where "Sxy = sum_list (map2 (\<lambda>a b. (a - avg x) * (b - avg y)) x y)"
  have fst_ps: "map fst ps = x" and snd_ps: "map snd ps = y"
    using len by (simp_all add: ps_def)
  have x_ne: "x \<noteq> []" using sxx by auto
  then have n: "0 < n" using len by (cases x; cases y) (simp_all add: n_def ps_def)
  have lx: "real (length x) = n" and ly: "real (length y) = n"
    using len by (simp_all add: n_def ps_def)
  have "sum_list x = XA" unfolding XA_def using fst_ps by (metis map_ident map_map o_def)
  then have mx: "avg x = XA / n" unfolding avg_def lx by simp
  have "sum_list y = XB" unfolding XB_def using snd_ps by (metis map_ident map_map o_def)
  then have my: "avg y = XB / n" unfolding avg_def ly by simp
  have "map (\<lambda>a. (a - avg x) * (a - avg x)) x = map (\<lambda>p. (fst p - avg x) * (fst p - avg x)) ps"
    by (subst fst_ps [symmetric]) (simp add: o_def)
  then have Sxx_eq: "Sxx = XAA - 2 * avg x * XA + n * (avg x * avg x)"
    by (simp add: Sxx_def square_sum_expand XAA_def XA_def n_def)
  have "map2 (\<lambda>a b. (a - avg x) * (b - avg y)) x y
      = map (\<lambda>p. (fst p - avg x) * (snd p - avg y)) ps"
    by (simp add: ps_def case_prod_beta)
  then have Sxy_eq: "Sxy = XAB - avg x * XB - avg y * XA + n * (avg x * avg y)"
    by (simp add: Sxy_def product_sum_expand XAB_def XA_def XB_def n_def)
  have b_eq: "b * Sxx = Sxy"
    using sxx by (simp add: b_def ols_slope_def Sxx_def Sxy_def)
  have a_eq: "a = avg y - b * avg x"
    by (simp add: a_def b_def ols_intercept_def)
  have n_mx: "n * avg x = XA" and n_my: "n * avg y = XB"
    using n by (simp_all add: mx my)
  have r0: "(\<Sum>p\<leftarrow>ps. snd p - (b * fst p + a)) = 0"
  proof -
    have "(\<Sum>p\<leftarrow>ps. snd p - (b * fst p + a)) = XB - b * XA - n * a"
      by (simp add: residual_sum XA_def XB_def n_def)
    also have "\<dots> = XB - b * XA - (n * avg y - b * (n * avg x))"
      by (simp add: a_eq algebra_simps)
    also have "\<dots> = 0" by (simp add: n_mx n_my)
    finally show ?thesis .
  qed
  have r1: "(\<Sum>p\<leftarrow>ps. (snd p - (b * fst p + a)) * fst p) = 0"
  proof -
    have "(\<Sum>p\<leftarrow>ps. (snd p - (b * fst p + a)) * fst p) = XAB - b * XAA - a * XA"
      by (simp add: residual_moment XA_def XAB_def XAA_def)
    also have "\<dots> = (XAB - avg y * XA) - b * (XAA - avg x * XA)"
      by (simp add: a_eq algebra_simps)
    also have "XAB - avg y * XA = Sxy"
      unfolding Sxy_eq using n_mx n_my by (simp add: algebra_simps mx)
    also have "XAA - avg x * XA = Sxx"
      unfolding Sxx_eq using n_mx by (simp add: algebra_simps mx)
    finally show ?thesis by (simp add: b_eq)
  qed
  have rss_ps: "rss x y s' i' = (\<Sum>p\<leftarrow>ps. (snd p - (s' * fst p + i'))\<^sup>2)" for s' i'
    unfolding rss_def ps_def by (intro arg_cong [where f = sum_list] map_cong) auto
  have "rss x y s i = rss x y b a + (\<Sum>p\<leftarrow>ps. ((b - s) * fst p + (a - i))\<^sup>2)"
    unfolding rss_ps
    by (subst rss_expand [where s = s and i = i and b = b and a = a]) (simp add: r0 r1)
  moreover have "0 \<le> (\<Sum>p\<leftarrow>ps. ((b - s) * fst p + (a - i))\<^sup>2)"
    by (rule sum_list_nonneg) auto
  ultimately show ?thesis by (simp add: b_def a_def)
qed

text \<open>
  With at least two days the day indices are not all equal, so their squared
  deviations do not sum to zero and the least-squares line is unique.
\<close>

lemma arange_not_deficient:
  assumes "2 \<le> n"
  shows "sum_list (map (\<lambda>a. (a - avg (np_arange n)) * (a - avg (np_arange n))) (np_arange n)) \<noteq> 0"
proof
  let ?m = "avg (np_arange n)"
  let ?sq = "map (\<lambda>a. (a - ?m) * (a - ?m)) (np_arange n)"
  assume "sum_list ?sq = 0"
  moreover have "sum_list ?sq = 0 \<longleftrightarrow> (\<forall>y\<in>set ?sq. y = 0)"
    by (rule sum_list_nonneg_eq_0_iff) auto
  ultimately have z: "\<forall>y\<in>set ?sq. y = 0"
    by blast
  from assms have m: "(0::nat) \<in> {0..<n}" "(1::nat) \<in> {0..<n}" by simp_all
  have "real 0 \<in> real ` {0..<n}" by (rule imageI) (rule m(1))
  moreover have "real 1 \<in> real ` {0..<n}" by (rule imageI) (rule m(2))
  ultimately have "0 \<in> set (np_arange n) \<and> 1 \<in> set (np_arange n)"
    by (simp add: np_arange_def)
  moreover from z have "\<forall>a\<in>set (np_arange n). a = ?m" by simp
  ultimately have "0 = ?m" "1 = ?m" by blast+
  then show False by simp
qed

text \<open>
  Claim C9, as the code has it. The label follows the slope that \<open>np.polyfit\<close>
  returns, not the exact least-squares slope: whenever the trend is computed,
  the label is "warming" exactly when the returned slope is greater than 0 and
  "cooling" exactly when it is not, so that a returned slope of exactly 0 is
  labelled "cooling". If the returned slope is within \<open>eps\<close> of the exact
  least-squares slope, the label is "warming" when the exact slope is above
  \<open>eps\<close> and "cooling" when it is at most \<open>- eps\<close>; in between, and in
  particular for an exact slope of 0, the label is decided by the rounding
  error of the fit. The exact least-squares slope and intercept are those of
  a line with the least sum of squared residuals, for every series of at least
  two days.
\<close>

theorem trend_label_follows_fitted_slope:
  "(\<forall>slope label. linear_trend lstsq temp = Inr (slope, label) \<longrightarrow>
      (\<exists>icpt. np_polyfit1 lstsq (np_arange (length temp)) temp = Inr (slope, icpt)) \<and>
      (label = ''warming'' \<longleftrightarrow> f_gt slope (Fin 0)) \<and>
      (label = ''cooling'' \<longleftrightarrow> \<not> f_gt slope (Fin 0))) \<and>
   (\<forall>s icpt eps. temp \<noteq> [] \<and> lstsq (np_arange (length temp)) temp = Inr (Fin s, icpt) \<and>
        \<bar>s - ols_slope (np_arange (length temp)) temp\<bar> \<le> eps \<longrightarrow>
      (eps < ols_slope (np_arange (length temp)) temp \<longrightarrow>
         linear_trend lstsq temp = Inr (Fin s, ''warming'')) \<and>
      (ols_slope (np_arange (length temp)) temp \<le> - eps \<longrightarrow>
         linear_trend lstsq temp = Inr (Fin s, ''cooling''))) \<and>
   (\<forall>icpt. temp \<noteq> [] \<and> lstsq (np_arange (length temp)) temp = Inr (Fin 0, icpt) \<longrightarrow>
      linear_trend lstsq temp = Inr (Fin 0, ''cooling'')) \<and>
   (\<forall>s i. 2 \<le> length temp \<longrightarrow>
      rss (np_arange (length temp)) temp
          (ols_slope (np_arange (length temp)) temp) (ols_intercept (np_arange (length temp)) temp)
        \<le> rss (np_arange (length temp)) temp s i)"
proof (intro conjI allI impI)
  fix slope label
  assume a: "linear_trend lstsq temp = Inr (slope, label)"
  then show "\<exists>icpt. np_polyfit1 lstsq (np_arange (length temp)) temp = Inr (slope, icpt)"
    by (auto simp: linear_trend_def split: sum.splits prod.splits)
  from a have "label = trend_direction slope"
    by (auto simp: linear_trend_def split: sum.splits prod.splits)
  then show "label = ''warming'' \<longleftrightarrow> f_gt slope (Fin 0)"
    and "label = ''cooling'' \<longleftrightarrow> \<not> f_gt slope (Fin 0)"
    by (simp_all add: trend_direction_def)
next
  fix s icpt eps
  assume h: "temp \<noteq> [] \<and> lstsq (np_arange (length temp)) temp = Inr (Fin s, icpt) \<and>
        \<bar>s - ols_slope (np_arange (length temp)) temp\<bar> \<le> eps"
  then have t: "linear_trend lstsq temp = Inr (Fin s, trend_direction (Fin s))"
    by (simp add: linear_trend_fit)
  {
    assume "eps < ols_slope (np_arange (length temp)) temp"
    with h have "0 < s" by linarith
    with t show "linear_trend lstsq temp = Inr (Fin s, ''warming'')"
      by (simp add: trend_direction_def f_gt_Fin_0)
  }
  {
    assume "ols_slope (np_arange (length temp)) temp \<le> - eps"
    with h have "\<not> 0 < s" by linarith
    with t show "linear_trend lstsq temp = Inr (Fin s, ''cooling'')"
      by (simp add: trend_direction_def f_gt_Fin_0)
  }
next
  fix icpt
  assume "temp \<noteq> [] \<and> lstsq (np_arange (length temp)) temp = Inr (Fin 0, icpt)"
  then have "linear_trend lstsq temp = Inr (Fin 0, trend_direction (Fin 0))"
    by (simp add: linear_trend_fit)
  then show "linear_trend lstsq temp = Inr (Fin 0, ''cooling'')"
    by (simp add: trend_direction_def f_gt_Fin_0)
next
  fix s i
  assume "2 \<le> length temp"
  then have "sum_list (map (\<lambda>a. (a - avg (np_arange (length temp)))
      * (a - avg (np_arange (length temp)))) (np_arange (length temp))) \<noteq> 0"
    by (rule arange_not_deficient)
  with length_np_arange [of "length temp"]
  show "rss (np_arange (length temp)) temp
          (ols_slope (np_arange (length temp)) temp) (ols_intercept (np_arange (length temp)) temp)
        \<le> rss (np_arange (length temp)) temp s i"
    by (rule ols_minimises_rss)
qed

lemma ols_examples:
  "ols_slope (np_arange (Suc (Suc (Suc 0)))) [3, 2, 1] = - 1"
  "ols_slope (np_arange (Suc (Suc (Suc 0)))) [1, 2, 3] = 1"
  "ols_slope (np_arange (Suc (Suc (Suc 0)))) [5, 5, 5] = 0"
  by (simp_all add: ols_slope_def np_arange_def avg_def upt_rec)

theorem trend_label_witness:
  "linear_trend (\<lambda>x y. Inr (Fin (ols_slope x y), Fin (ols_intercept x y))) [1, 2, 3]
     = Inr (Fin 1, ''warming'') \<and>
   linear_trend (\<lambda>x y. Inr (Fin (ols_slope x y), Fin (ols_intercept x y))) [3, 2, 1]
     = Inr (Fin (- 1), ''cooling'')"
proof -
  let ?fit = "\<lambda>x y. Inr (Fin (ols_slope x y), Fin (ols_intercept x y)) :: py_error + fval \<times> fval"
  have up: "[1, 2, 3::real] \<noteq> [] \<and>
      ?fit (np_arange (length [1, 2, 3::real])) [1, 2, 3]
        = Inr (Fin 1, Fin (ols_intercept (np_arange (length [1, 2, 3::real])) [1, 2, 3])) \<and>
      \<bar>1 - ols_slope (np_arange (length [1, 2, 3::real])) [1, 2, 3]\<bar> \<le> 1 / 2"
    by (simp add: ols_examples)
  have down: "[3, 2, 1::real] \<noteq> [] \<and>
      ?fit (np_arange (length [3, 2, 1::real])) [3, 2, 1]
        = Inr (Fin (- 1), Fin (ols_intercept (np_arange (length [3, 2, 1::real])) [3, 2, 1])) \<and>
      \<bar>- 1 - ols_slope (np_arange (length [3, 2, 1::real])) [3, 2, 1]\<bar> \<le> 1 / 2"
    by (simp add: ols_examples)
  from trend_label_follows_fitted_slope [of ?fit "[1, 2, 3]"] up
  have "1 / 2 < ols_slope (np_arange (length [1, 2, 3::real])) [1, 2, 3] \<longrightarrow>
      linear_trend ?fit [1, 2, 3] = Inr (Fin 1, ''warming'')"
    by blast
  moreover from trend_label_follows_fitted_slope [of ?fit "[3, 2, 1]"] down
  have "ols_slope (np_arange (length [3, 2, 1::real])) [3, 2, 1] \<le> - (1 / 2) \<longrightarrow>
      linear_trend ?fit [3, 2, 1] = Inr (Fin (- 1), ''cooling'')"
    by blast
  ultimately show ?thesis by (simp add: ols_examples)
qed

text \<open>
  The claim as written fails on a flat series. For three days at 5 degrees the
  exact least-squares slope is 0, for which the claim promises "cooling"; the
  double-precision solver returns a slope of about \<open>4.06e-16\<close> for this system,
  and with that slope the label is "warming".
\<close>

theorem flat_series_labelled_warming:
  "ols_slope (np_arange (length [5, 5, 5::real])) [5, 5, 5] = 0 \<and>
   linear_trend (\<lambda>x y. Inr (Fin (406 / 10 ^ 18), Fin 5)) [5, 5, 5]
     = Inr (Fin (406 / 10 ^ 18), ''warming'')"
proof -
  have "ols_slope (np_arange (length [5, 5, 5::real])) [5, 5, 5] = 0"
    by (simp add: ols_examples)
  moreover have "linear_trend (\<lambda>x y. Inr (Fin (406 / 10 ^ 18), Fin 5)) [5, 5, 5]
      = Inr (Fin (406 / 10 ^ 18), ''warming'')"
    by (simp add: linear_trend_def np_polyfit1_def np_arange_Nil length_np_arange
        trend_direction_def f_gt_def)
  ultimately show ?thesis by simp
qed

section \<open>The correlation matrix under rounding\<close>

text \<open>Three roundings, computed: the square root of 2 and two quotients.\<close>

lemma round53_sqrt2: "round53 (sqrt 2) = 6369051672525773 / 2 ^ 52"
proof -
  have e: "sqrt 2 * 2 ^ 52 = sqrt (2 * (2 ^ 52)\<^sup>2)"
    unfolding real_sqrt_mult real_sqrt_abs by simp
  have "(6369051672525773 - 1 / 2)\<^sup>2 < (2 * (2 ^ 52)\<^sup>2 :: real)"
    by (simp add: power2_eq_square)
  then have lo: "6369051672525773 - 1 / 2 < sqrt 2 * 2 ^ 52"
    unfolding e by (rule real_less_rsqrt)
  have "(2 * (2 ^ 52)\<^sup>2 :: real) < (6369051672525773 + 1 / 2)\<^sup>2"
    by (simp add: power2_eq_square)
  then have hi: "sqrt 2 * 2 ^ 52 < 6369051672525773 + 1 / 2"
    unfolding e by (intro real_less_lsqrt) simp_all
  have r: "round_even (sqrt 2 * pow2 52) = 6369051672525773"
    using lo hi by (intro round_even_eqI) (simp_all add: pow2_def)
  have "(1::real) \<le> sqrt 2" by (intro real_le_rsqrt) simp
  moreover have "sqrt 2 < 2" by (intro real_less_lsqrt) simp_all
  ultimately have "pow2 0 \<le> \<bar>sqrt 2\<bar>" "\<bar>sqrt 2\<bar> < pow2 (0 + 1)"
    by (simp_all add: pow2_def)
  from round53_eqI [OF this] r show ?thesis by (simp add: pow2_def)
qed

lemma round53_quotient1:
  "round53 (2 / (6369051672525773 / 2 ^ 52)) = 6369051672525772 / 2 ^ 52"
proof -
  let ?x = "2 / (6369051672525773 / 2 ^ 52) :: real"
  have r: "round_even (?x * pow2 52) = 6369051672525772"
    by (intro round_even_eqI) (simp_all add: pow2_def)
  have "pow2 0 \<le> \<bar>?x\<bar>" "\<bar>?x\<bar> < pow2 (0 + 1)"
    by (simp_all add: pow2_def)
  from round53_eqI [OF this] r show ?thesis by (simp add: pow2_def)
qed

lemma round53_quotient2:
  "round53 ((6369051672525772 / 2 ^ 52) / (6369051672525773 / 2 ^ 52)) = 9007199254740991 / 2 ^ 53"
proof -
  let ?x = "(6369051672525772 / 2 ^ 52) / (6369051672525773 / 2 ^ 52) :: real"
  have r: "round_even (?x * pow2 53) = 9007199254740991"
    by (intro round_even_eqI) (simp_all add: pow2_def)
  have "pow2 (- 1) \<le> \<bar>?x\<bar>" "\<bar>?x\<bar> < pow2 (- 1 + 1)"
    by (simp_all add: pow2_def)
  from round53_eqI [OF this] r show ?thesis by (simp add: pow2_def)
qed

lemma f_div_ieee_Fin: "y \<noteq> 0 \<Longrightarrow> f_div ieee (Fin x) (Fin y) = Fin (round53 (x / y))"
  by (simp add: ieee_ops)

text \<open>
  The diagonal entry of a variable with the values \<open>[1, 3]\<close>: the variance is 2,
  the standard deviation the rounded square root of 2, and the two divisions
  end one unit in the last place below 1.
\<close>

lemma ieee_unit_diagonal_missed:
  assumes "m ! 0 = [1, 3]" "0 < length m"
  shows "np_corrcoef ieee m ! 0 ! 0 = Fin (9007199254740991 / 2 ^ 53)"
proof -
  have c: "np_cov ieee [1, 3] [1, 3] = Fin 2"
    by (simp add: np_cov_def mean_r_def np_sum_def ieee_ops round53_ints)
  have s: "f_sqrt ieee (Fin 2) = Fin (6369051672525773 / 2 ^ 52)"
    by (simp add: ieee_ops round53_sqrt2)
  have q1: "f_div ieee (Fin 2) (Fin (6369051672525773 / 2 ^ 52)) = Fin (6369051672525772 / 2 ^ 52)"
    by (subst f_div_ieee_Fin) (simp_all only: round53_quotient1, simp)
  have q2: "f_div ieee (Fin (6369051672525772 / 2 ^ 52)) (Fin (6369051672525773 / 2 ^ 52))
      = Fin (9007199254740991 / 2 ^ 53)"
    by (subst f_div_ieee_Fin) (simp_all only: round53_quotient2, simp)
  have "np_corrcoef ieee m ! 0 ! 0 = f_clip (Fin (9007199254740991 / 2 ^ 53)) (- 1) 1"
    by (simp only: np_corrcoef_nth [OF assms(2) assms(2)] assms(1) c s q1 q2)
  then show ?thesis by (simp add: clip_def)
qed

text \<open>The covariance of two rows of one length does not depend on their order.\<close>

lemma map2_swap: "map2 f x y = map2 (\<lambda>b a. f a b) y x"
proof (induction x arbitrary: y)
  case Nil
  then show ?case by simp
next
  case (Cons a x)
  then show ?case by (cases y) simp_all
qed

lemma np_cov_commute:
  assumes "length x = length y"
  shows "np_cov fo x y = np_cov fo y x"
proof -
  have "map2 (\<lambda>a b. rnd fo (rnd fo (a - mean_r fo x) * rnd fo (b - mean_r fo y))) x y
      = map2 (\<lambda>b a. rnd fo (rnd fo (b - mean_r fo y) * rnd fo (a - mean_r fo x))) y x"
    by (subst map2_swap) (simp add: mult.commute)
  with assms show ?thesis by (simp add: np_cov_def)
qed

text \<open>
  A rounding with relative error at most \<open>u\<close>. Two successive rounded divisions
  by positive numbers stay within \<open>2u + u^2\<close>, relatively, of the exact quotient.
\<close>

lemma rounded_pos_bounds:
  assumes rb: "\<forall>x. \<bar>R x - x\<bar> \<le> u * \<bar>x\<bar>" and t: "0 < (t::real)"
  shows "(1 - u) * t \<le> R t" and "R t \<le> (1 + u) * t"
proof -
  from rb have "\<bar>R t - t\<bar> \<le> u * \<bar>t\<bar>" by blast
  with t have b: "\<bar>R t - t\<bar> \<le> u * t" by simp
  from b show "(1 - u) * t \<le> R t" by (simp add: algebra_simps abs_le_iff)
  from b show "R t \<le> (1 + u) * t" by (simp add: algebra_simps abs_le_iff)
qed

lemma two_rounded_divisions:
  assumes rb: "\<forall>x. \<bar>R x - x\<bar> \<le> u * \<bar>x\<bar>" and u: "0 \<le> u" and s: "0 < (s::real)" and t: "0 < t"
  shows "\<bar>R (R (c / s) / t) - c / (s * t)\<bar> \<le> (2 * u + u\<^sup>2) * \<bar>c / (s * t)\<bar>"
proof -
  define a where "a = c / s"
  define q where "q = a / t"
  define p where "p = R a / t"
  have q_eq: "c / (s * t) = q" by (simp add: q_def a_def)
  from rb have "\<bar>R a - a\<bar> \<le> u * \<bar>a\<bar>" by blast
  then have "\<bar>R a - a\<bar> / t \<le> (u * \<bar>a\<bar>) / t"
    using t by (intro divide_right_mono) simp_all
  moreover have "\<bar>p - q\<bar> = \<bar>R a - a\<bar> / t"
    using t by (simp add: p_def q_def diff_divide_distrib [symmetric] abs_divide)
  moreover have "(u * \<bar>a\<bar>) / t = u * \<bar>q\<bar>"
    using t by (simp add: q_def abs_divide)
  ultimately have pq: "\<bar>p - q\<bar> \<le> u * \<bar>q\<bar>" by simp
  then have "\<bar>p\<bar> \<le> \<bar>q\<bar> + u * \<bar>q\<bar>" by linarith
  then have "u * \<bar>p\<bar> \<le> u * (\<bar>q\<bar> + u * \<bar>q\<bar>)"
    using u by (rule mult_left_mono)
  moreover from rb have "\<bar>R p - p\<bar> \<le> u * \<bar>p\<bar>" by blast
  ultimately have rp: "\<bar>R p - p\<bar> \<le> u * (\<bar>q\<bar> + u * \<bar>q\<bar>)" by linarith
  have "\<bar>R p - q\<bar> \<le> \<bar>R p - p\<bar> + \<bar>p - q\<bar>" by linarith
  with pq rp have "\<bar>R p - q\<bar> \<le> u * (\<bar>q\<bar> + u * \<bar>q\<bar>) + u * \<bar>q\<bar>" by linarith
  also have "\<dots> = (2 * u + u\<^sup>2) * \<bar>q\<bar>" by (simp add: algebra_simps power2_eq_square)
  finally show ?thesis unfolding q_eq p_def a_def .
qed

text \<open>
  The diagonal before clipping: the variance divided twice by its rounded
  square root is at least \<open>((1 - u) / (1 + u))^2\<close>.
\<close>

lemma rounded_diagonal_lower:
  assumes rb: "\<forall>x. \<bar>R x - x\<bar> \<le> u * \<bar>x\<bar>" and u: "0 \<le> u" "u < 1" and v: "0 < (v::real)"
  shows "0 < R (sqrt v)" and "((1 - u) / (1 + u))\<^sup>2 \<le> R (R (v / R (sqrt v)) / R (sqrt v))"
proof -
  define s where "s = R (sqrt v)"
  define w where "w = v / s"
  define z where "z = R w / s"
  from u have u1: "0 < 1 - u" "0 \<le> 1 - u" "0 < 1 + u" by simp_all
  from v have sv: "0 < sqrt v" by simp
  from rounded_pos_bounds [OF rb sv] have s_lo: "(1 - u) * sqrt v \<le> s"
    and s_hi: "s \<le> (1 + u) * sqrt v" by (simp_all add: s_def)
  from u1(1) sv have "0 < (1 - u) * sqrt v" by (rule mult_pos_pos)
  with s_lo have s: "0 < s" by linarith
  then show "0 < R (sqrt v)" by (simp add: s_def)
  from v s have w: "0 < w" by (simp add: w_def)
  from rounded_pos_bounds(1) [OF rb w] have rw: "(1 - u) * w \<le> R w" .
  from u1(1) w have "0 < (1 - u) * w" by (rule mult_pos_pos)
  with rw have "0 < R w" by linarith
  with s have z: "0 < z" by (simp add: z_def)
  from rounded_pos_bounds(1) [OF rb z] have rz: "(1 - u) * z \<le> R z" .
  have "((1 - u) * w) / s \<le> R w / s"
    using rw s by (intro divide_right_mono) simp_all
  then have "(1 - u) * (((1 - u) * w) / s) \<le> (1 - u) * z"
    unfolding z_def using u1(2) by (rule mult_left_mono)
  with rz have low: "(1 - u) * (((1 - u) * w) / s) \<le> R z" by linarith
  have "s\<^sup>2 \<le> ((1 + u) * sqrt v)\<^sup>2"
    using s s_hi by (intro power_mono) simp_all
  also have "\<dots> = (1 + u)\<^sup>2 * v" using v by (simp add: power_mult_distrib)
  finally have s2: "s\<^sup>2 \<le> (1 + u)\<^sup>2 * v" .
  have s2pos: "0 < s\<^sup>2" using s by simp
  have up: "0 < (1 + u)\<^sup>2" using u1(3) by simp
  have ws: "w / s = v / s\<^sup>2" by (simp add: w_def power2_eq_square)
  have "1 / (1 + u)\<^sup>2 \<le> v / s\<^sup>2"
    using s2 s2pos up by (simp add: field_simps)
  then have "(1 - u)\<^sup>2 * (1 / (1 + u)\<^sup>2) \<le> (1 - u)\<^sup>2 * (v / s\<^sup>2)"
    by (intro mult_left_mono) simp_all
  moreover have "(1 - u) * (((1 - u) * w) / s) = (1 - u)\<^sup>2 * (v / s\<^sup>2)"
    by (simp add: w_def power2_eq_square)
  ultimately have "(1 - u)\<^sup>2 * (1 / (1 + u)\<^sup>2) \<le> R z" using low by linarith
  then have "((1 - u) / (1 + u))\<^sup>2 \<le> R z" by (simp add: power_divide)
  then show "((1 - u) / (1 + u))\<^sup>2 \<le> R (R (v / R (sqrt v)) / R (sqrt v))"
    by (simp add: z_def w_def s_def)
qed

lemma clip_lipschitz: "\<bar>clip x lo hi - clip y lo hi\<bar> \<le> \<bar>x - y\<bar>"
  by (auto simp: clip_def min_def max_def)

lemma np_cov_Fin:
  assumes "np_cov fo x x = Fin v" "length x = length y"
  obtains c where "np_cov fo x y = Fin c" "np_cov fo y x = Fin c"
proof -
  from assms(1) have "2 \<le> length x"
    by (auto simp: np_cov_def split: if_splits)
  then obtain c where c: "np_cov fo x y = Fin c" by (simp add: np_cov_def)
  with np_cov_commute [OF assms(2), of fo] have "np_cov fo y x = Fin c" by simp
  with c show ?thesis by (rule that)
qed

lemma corrcoef_rounding_bounds:
  assumes rb: "\<forall>x. \<bar>rnd fo x - x\<bar> \<le> u * \<bar>x\<bar>" and u: "0 \<le> u" "u < 1"
    and ij: "i < length m" "j < length m" and len: "length (m ! i) = length (m ! j)"
    and vi: "np_cov fo (m ! i) (m ! i) = Fin vi" "0 < vi"
    and vj: "np_cov fo (m ! j) (m ! j) = Fin vj" "0 < vj"
  shows "\<exists>a b d c. np_corrcoef fo m ! i ! j = Fin a \<and> np_corrcoef fo m ! j ! i = Fin b \<and>
           np_corrcoef fo m ! i ! i = Fin d \<and> np_cov fo (m ! i) (m ! j) = Fin c \<and>
           ((1 - u) / (1 + u))\<^sup>2 \<le> d \<and> d \<le> 1 \<and>
           \<bar>a - b\<bar> \<le> (4 * u + 2 * u\<^sup>2) * \<bar>c / (rnd fo (sqrt vi) * rnd fo (sqrt vj))\<bar> \<and>
           (u = 0 \<longrightarrow> a = b \<and> d = 1)"
proof -
  define si where "si = rnd fo (sqrt vi)"
  define sj where "sj = rnd fo (sqrt vj)"
  from rounded_diagonal_lower(1) [OF rb u vi(2)] have si: "0 < si" by (simp add: si_def)
  from rounded_diagonal_lower(1) [OF rb u vj(2)] have sj: "0 < sj" by (simp add: sj_def)
  from np_cov_Fin [OF vi(1) len] obtain c
    where c: "np_cov fo (m ! i) (m ! j) = Fin c" "np_cov fo (m ! j) (m ! i) = Fin c" .
  have ri: "f_sqrt fo (np_cov fo (m ! i) (m ! i)) = Fin si"
    using vi by (simp add: si_def)
  have rj: "f_sqrt fo (np_cov fo (m ! j) (m ! j)) = Fin sj"
    using vj by (simp add: sj_def)
  define pij where "pij = rnd fo (rnd fo (c / si) / sj)"
  define pji where "pji = rnd fo (rnd fo (c / sj) / si)"
  define pd where "pd = rnd fo (rnd fo (vi / si) / si)"
  define q where "q = c / (si * sj)"
  have a: "np_corrcoef fo m ! i ! j = Fin (clip pij (- 1) 1)"
    using si sj by (simp add: np_corrcoef_nth [OF ij] ri rj c pij_def)
  have b: "np_corrcoef fo m ! j ! i = Fin (clip pji (- 1) 1)"
    using si sj by (simp add: np_corrcoef_nth [OF ij(2) ij(1)] ri rj c pji_def)
  have ri': "f_sqrt fo (Fin vi) = Fin si"
    using vi(2) by (simp add: si_def)
  have "np_corrcoef fo m ! i ! i
      = f_clip (f_div fo (f_div fo (Fin vi) (Fin si)) (Fin si)) (- 1) 1"
    by (simp only: np_corrcoef_nth [OF ij(1) ij(1)] vi(1) ri')
  then have d: "np_corrcoef fo m ! i ! i = Fin (clip pd (- 1) 1)"
    using si by (simp add: pd_def)
  have "\<bar>pij - q\<bar> \<le> (2 * u + u\<^sup>2) * \<bar>q\<bar>"
    unfolding pij_def q_def using rb u(1) si sj by (rule two_rounded_divisions)
  moreover have "\<bar>pji - c / (sj * si)\<bar> \<le> (2 * u + u\<^sup>2) * \<bar>c / (sj * si)\<bar>"
    unfolding pji_def using rb u(1) sj si by (rule two_rounded_divisions)
  then have "\<bar>pji - q\<bar> \<le> (2 * u + u\<^sup>2) * \<bar>q\<bar>"
    by (simp add: q_def mult.commute)
  ultimately have "\<bar>pij - pji\<bar> \<le> (2 * u + u\<^sup>2) * \<bar>q\<bar> + (2 * u + u\<^sup>2) * \<bar>q\<bar>"
    by linarith
  also have "\<dots> = (4 * u + 2 * u\<^sup>2) * \<bar>q\<bar>" by (simp add: algebra_simps)
  finally have "\<bar>pij - pji\<bar> \<le> (4 * u + 2 * u\<^sup>2) * \<bar>q\<bar>" .
  with clip_lipschitz [of pij "- 1" 1 pji]
  have sym: "\<bar>clip pij (- 1) 1 - clip pji (- 1) 1\<bar> \<le> (4 * u + 2 * u\<^sup>2) * \<bar>q\<bar>"
    by linarith
  from rounded_diagonal_lower(2) [OF rb u vi(2)]
  have low: "((1 - u) / (1 + u))\<^sup>2 \<le> pd" by (simp add: pd_def si_def)
  have "0 \<le> (1 - u) / (1 + u)" "(1 - u) / (1 + u) \<le> 1" using u by simp_all
  then have "((1 - u) / (1 + u))\<^sup>2 \<le> 1" by (simp add: power_le_one)
  with low have dlow: "((1 - u) / (1 + u))\<^sup>2 \<le> clip pd (- 1) 1"
    by (simp add: clip_def)
  have dhi: "clip pd (- 1) 1 \<le> 1" by (simp add: clip_def)
  have exact: "u = 0 \<longrightarrow> clip pij (- 1) 1 = clip pji (- 1) 1 \<and> clip pd (- 1) 1 = 1"
    using sym dlow dhi by auto
  from a b d c(1) dlow dhi sym exact show ?thesis
    unfolding q_def si_def sj_def by blast
qed

text \<open>
  Claim C8, as the code has it. Let every operation round with a relative error
  of at most \<open>u\<close> (\<open>2^-53\<close> for doubles), and let the variables \<open>i\<close> and \<open>j\<close> have one
  length and positive computed variances. Then the entries \<open>M[i][j]\<close>, \<open>M[j][i]\<close>
  and \<open>M[i][i]\<close> are numbers; the diagonal entry is at most 1 and at least
  \<open>((1 - u) / (1 + u))^2\<close>; and \<open>M[i][j]\<close> and \<open>M[j][i]\<close>, two roundings of the
  quotient of the covariance by the two standard deviations taken in different
  orders, differ by at most \<open>4u + 2u^2\<close> times that quotient. The matrix is
  exactly symmetric with a diagonal of exactly 1 when nothing is rounded
  (\<open>u = 0\<close>).
\<close>

theorem corrcoef_symmetric_up_to_rounding:
  assumes rb: "\<forall>x. \<bar>rnd fo x - x\<bar> \<le> u * \<bar>x\<bar>" and u: "0 \<le> u" "u < 1"
    and ij: "i < length m" "j < length m" and len: "length (m ! i) = length (m ! j)"
    and vi: "np_cov fo (m ! i) (m ! i) = Fin vi" "0 < vi"
    and vj: "np_cov fo (m ! j) (m ! j) = Fin vj" "0 < vj"
  shows "\<exists>a b d c. np_corrcoef fo m ! i ! j = Fin a \<and> np_corrcoef fo m ! j ! i = Fin b \<and>
           np_corrcoef fo m ! i ! i = Fin d \<and> np_cov fo (m ! i) (m ! j) = Fin c \<and>
           ((1 - u) / (1 + u))\<^sup>2 \<le> d \<and> d \<le> 1 \<and>
           \<bar>a - b\<bar> \<le> (4 * u + 2 * u\<^sup>2) * \<bar>c / (rnd fo (sqrt vi) * rnd fo (sqrt vj))\<bar> \<and>
           (u = 0 \<longrightarrow> a = b \<and> d = 1)"
  using assms by (rule corrcoef_rounding_bounds)

lemma ieee_two_day_variances:
  "np_cov ieee [1, 3] [1, 3] = Fin 2" "np_cov ieee [0, 2] [0, 2] = Fin 2"
  by (simp_all add: np_cov_def mean_r_def np_sum_def ieee_ops round53_ints)

theorem corrcoef_rounding_witness:
  "\<exists>a b d c. np_corrcoef ieee [[1, 3], [0, 2]] ! 0 ! 1 = Fin a \<and>
      np_corrcoef ieee [[1, 3], [0, 2]] ! 1 ! 0 = Fin b \<and>
      np_corrcoef ieee [[1, 3], [0, 2]] ! 0 ! 0 = Fin d \<and>
      np_cov ieee [1, 3] [0, 2] = Fin c \<and>
      ((1 - 1 / 2 ^ 53) / (1 + 1 / 2 ^ 53))\<^sup>2 \<le> d \<and> d \<le> 1 \<and>
      \<bar>a - b\<bar> \<le> (4 * (1 / 2 ^ 53) + 2 * (1 / 2 ^ 53)\<^sup>2)
                 * \<bar>c / (rnd ieee (sqrt 2) * rnd ieee (sqrt 2))\<bar>"
proof -
  have rb: "\<forall>x. \<bar>rnd ieee x - x\<bar> \<le> (1 / 2 ^ 53) * \<bar>x\<bar>"
    using ieee_rel_error by blast
  have "\<exists>a b d c. np_corrcoef ieee [[1, 3], [0, 2]] ! 0 ! 1 = Fin a \<and>
      np_corrcoef ieee [[1, 3], [0, 2]] ! 1 ! 0 = Fin b \<and>
      np_corrcoef ieee [[1, 3], [0, 2]] ! 0 ! 0 = Fin d \<and>
      np_cov ieee ([[1, 3], [0, 2]] ! 0) ([[1, 3], [0, 2]] ! 1) = Fin c \<and>
      ((1 - 1 / 2 ^ 53) / (1 + 1 / 2 ^ 53))\<^sup>2 \<le> d \<and> d \<le> 1 \<and>
      \<bar>a - b\<bar> \<le> (4 * (1 / 2 ^ 53) + 2 * (1 / 2 ^ 53)\<^sup>2)
                 * \<bar>c / (rnd ieee (sqrt 2) * rnd ieee (sqrt 2))\<bar> \<and>
      ((1 / 2 ^ 53 :: real) = 0 \<longrightarrow> a = b \<and> d = 1)"
    by (rule corrcoef_symmetric_up_to_rounding [OF rb, of 0 "[[1, 3], [0, 2]]" 1 2 2])
      (simp_all add: ieee_two_day_variances)
  then show ?thesis by simp
qed

text \<open>
  The claim as written fails on a two-day series with the temperatures 1 and 3,
  in which no variable is constant: in double arithmetic the diagonal entry of
  the temperature is \<open>1 - 2^-53\<close>, printed 0.9999999999999999, and not 1.0.
\<close>

theorem unit_diagonal_lost_to_rounding:
  "correlation_analysis ieee
     \<lparr>dates = [737791, 737792], temperature = [1, 3], humidity = [50, 60],
      precipitation = [0, 2], wind_speed = [5, 10], pressure = [1010, 1020]\<rparr>
     = Inr (np_corrcoef ieee [[1, 3], [50, 60], [0, 2], [5, 10], [1010, 1020]]) \<and>
   np_corrcoef ieee [[1, 3], [50, 60], [0, 2], [5, 10], [1010, 1020]] ! 0 ! 0
     = Fin (9007199254740991 / 2 ^ 53) \<and>
   Fin (9007199254740991 / 2 ^ 53) \<noteq> Fin 1"
proof -
  have "np_corrcoef ieee [[1, 3], [50, 60], [0, 2], [5, 10], [1010, 1020]] ! 0 ! 0
      = Fin (9007199254740991 / 2 ^ 53)"
    by (rule ieee_unit_diagonal_missed) simp_all
  then show ?thesis by (simp add: correlation_analysis_def)
qed

text \<open>
  In exact arithmetic a row that is not constant has a positive variance, and
  the correlation matrix is then exactly symmetric with a diagonal of exactly 1.
\<close>

lemma exact_ops:
  "rnd exact_arithmetic x = x" "np_sum exact_arithmetic a = sum_list a"
  "mean_r exact_arithmetic a = sum_list a / real (length a)"
  by (simp_all add: exact_arithmetic_def np_sum_def mean_r_def)

lemma nonconstant_length:
  assumes "\<not> (\<exists>c. \<forall>x\<in>set a. x = c)"
  shows "2 \<le> length a"
proof (rule ccontr)
  assume "\<not> 2 \<le> length a"
  then consider "a = []" | x where "a = [x]"
    by (cases a; cases "tl a") auto
  then show False using assms by cases auto
qed

lemma nonconstant_variance:
  assumes "\<not> (\<exists>c. \<forall>x\<in>set a. x = c)"
  shows "\<exists>v. 0 < v \<and> np_cov exact_arithmetic a a = Fin v"
proof -
  define mu where "mu = sum_list a / real (length a)"
  let ?sq = "map2 (\<lambda>u v. (u - mu) * (v - mu)) a a"
  have n: "2 \<le> length a" using assms by (rule nonconstant_length)
  have sq: "?sq = map (\<lambda>u. (u - mu) * (u - mu)) a"
    by (simp add: zip_same_conv_map)
  have nonneg: "0 \<le> sum_list ?sq"
    unfolding sq by (rule sum_list_nonneg) auto
  have "sum_list ?sq \<noteq> 0"
  proof
    assume "sum_list ?sq = 0"
    moreover have "sum_list ?sq = 0 \<longleftrightarrow> (\<forall>y\<in>set ?sq. y = 0)"
      unfolding sq by (rule sum_list_nonneg_eq_0_iff) auto
    ultimately have "\<forall>y\<in>set ?sq. y = 0" by blast
    then have "\<forall>x\<in>set a. x = mu" unfolding sq by simp
    with assms show False by blast
  qed
  with nonneg have "0 < sum_list ?sq" by simp
  moreover from n have "0 < 1 / (real (length a) - 1)" by simp
  ultimately have "0 < sum_list ?sq * (1 / (real (length a) - 1))"
    by (rule mult_pos_pos)
  with n show ?thesis by (simp add: np_cov_def exact_ops mu_def)
qed

lemma corrcoef_exact_arithmetic:
  assumes "i < length m" "j < length m" "length (m ! i) = length (m ! j)"
    and "\<not> (\<exists>c. \<forall>x\<in>set (m ! i). x = c)" "\<not> (\<exists>c. \<forall>x\<in>set (m ! j). x = c)"
  shows "np_corrcoef exact_arithmetic m ! i ! j = np_corrcoef exact_arithmetic m ! j ! i"
    and "np_corrcoef exact_arithmetic m ! i ! i = Fin 1"
proof -
  from nonconstant_variance [OF assms(4)] obtain vi
    where vi: "np_cov exact_arithmetic (m ! i) (m ! i) = Fin vi" "0 < vi" by blast
  from nonconstant_variance [OF assms(5)] obtain vj
    where vj: "np_cov exact_arithmetic (m ! j) (m ! j) = Fin vj" "0 < vj" by blast
  have rb: "\<forall>x. \<bar>rnd exact_arithmetic x - x\<bar> \<le> 0 * \<bar>x\<bar>" by (simp add: exact_ops)
  from corrcoef_rounding_bounds [OF rb _ _ assms(1,2,3) vi vj]
  show "np_corrcoef exact_arithmetic m ! i ! j = np_corrcoef exact_arithmetic m ! j ! i"
    and "np_corrcoef exact_arithmetic m ! i ! i = Fin 1"
    by auto
qed

section \<open>A constant variable whose mean is rounded\<close>

lemma round53_scale: "round53 (x * pow2 k) = round53 x * pow2 k"
proof (cases "x = 0")
  case True
  then show ?thesis by (simp add: round53_def)
next
  case False
  then obtain e where e: "pow2 e \<le> \<bar>x\<bar>" "\<bar>x\<bar> < pow2 (e + 1)" by (rule round53_exponent)
  have k: "0 < pow2 k" by (rule pow2_pos)
  have "pow2 (e + k) \<le> \<bar>x * pow2 k\<bar>"
    using e(1) k by (simp add: pow2_add abs_mult)
  moreover have "\<bar>x * pow2 k\<bar> < pow2 (e + k + 1)"
    using e(2) k pow2_add [of "e + 1" k] by (simp add: abs_mult algebra_simps)
  ultimately have "round53 (x * pow2 k)
      = of_int (round_even (x * pow2 k * pow2 (52 - (e + k)))) * pow2 (e + k - 52)"
    by (rule round53_eqI)
  moreover have "pow2 k * pow2 (52 - (e + k)) = pow2 (52 - e)"
    using pow2_add [of k "52 - (e + k)"] by simp
  then have "x * pow2 k * pow2 (52 - (e + k)) = x * pow2 (52 - e)"
    by (simp add: mult.assoc)
  moreover have "pow2 (e + k - 52) = pow2 (e - 52) * pow2 k"
    using pow2_add [of "e - 52" k] by (simp add: algebra_simps)
  ultimately show ?thesis using round53_eqI [OF e] by simp
qed

lemma round53_dyadic:
  assumes "\<bar>n\<bar> < 2 ^ 53"
  shows "round53 (of_int n * pow2 e) = of_int n * pow2 e"
  by (simp add: round53_scale round53_of_int [OF assms])

lemma round53_is_double:
  assumes "x = of_int n * pow2 e" "\<bar>n\<bar> < 2 ^ 53" "y = of_int n * pow2 e"
  shows "round53 x = y"
  using assms round53_dyadic [of n e] by simp

lemma round53_is_rounded:
  assumes "pow2 e \<le> \<bar>x\<bar>" "\<bar>x\<bar> < pow2 (e + 1)"
    and "round_even (x * pow2 (52 - e)) = k" "y = of_int k * pow2 (e - 52)"
  shows "round53 x = y"
  using round53_eqI [OF assms(1,2)] assms(3,4) by simp

text \<open>
  A constant variable whose mean is not computed exactly: three times the
  double nearest to 0.1. The sum rounds up, the mean is one unit in the last
  place above the value, the standard deviation is \<open>2^-56\<close> and not 0, and every
  z-score is -1.
\<close>

lemma ieee_tenth_example:
  defines "d \<equiv> 3602879701896397 / 2 ^ 55"
  shows "np_mean ieee [d, d, d] = Fin (7205759403792795 / 2 ^ 56)"
    and "np_std ieee [d, d, d] = Fin (1 / 2 ^ 56)"
    and "zscore ieee [d, d, d] = [Fin (- 1), Fin (- 1), Fin (- 1)]"
proof -
  have s1: "round53 (0 + d) = d"
    by (rule round53_is_double [where n = 3602879701896397 and e = "- 55"])
      (simp_all add: d_def pow2_def)
  have s2: "round53 (d + d) = 3602879701896397 / 2 ^ 54"
    by (rule round53_is_double [where n = 3602879701896397 and e = "- 54"])
      (simp_all add: d_def pow2_def)
  have tie: "round_even (10808639105689191 / 2) = 5404319552844596"
    by (simp add: round_even_def Let_def)
  have s3: "round53 (3602879701896397 / 2 ^ 54 + d) = 1351079888211149 / 2 ^ 52"
    by (rule round53_is_rounded [where e = "- 2" and k = 5404319552844596])
      (simp_all add: d_def pow2_def tie)
  have sum: "np_sum ieee [d, d, d] = 1351079888211149 / 2 ^ 52"
    by (simp only: np_sum_def ieee_ops foldl.simps s1 s2 s3) simp
  have m: "round53 (1351079888211149 / 2 ^ 52 / 3) = 7205759403792795 / 2 ^ 56"
    by (rule round53_is_rounded [where e = "- 4" and k = 7205759403792795])
      (simp_all add: pow2_def, intro round_even_eqI, simp_all)
  show mean: "np_mean ieee [d, d, d] = Fin (7205759403792795 / 2 ^ 56)"
  proof -
    have "np_mean ieee [d, d, d] = f_div ieee (Fin (1351079888211149 / 2 ^ 52)) (Fin 3)"
      unfolding np_mean_def sum by simp
    also have "\<dots> = Fin (round53 (1351079888211149 / 2 ^ 52 / 3))"
      by (rule f_div_ieee_Fin) simp
    finally show ?thesis by (simp only: m)
  qed
  have dev: "round53 (d - 7205759403792795 / 2 ^ 56) = - (1 / 2 ^ 56)"
    by (rule round53_is_double [where n = "- 1" and e = "- 56"])
      (simp_all add: d_def pow2_def)
  have sq: "round53 (- (1 / 2 ^ 56) * - (1 / 2 ^ 56)) = 1 / 2 ^ 112"
    by (rule round53_is_double [where n = 1 and e = "- 112"])
      (simp_all add: pow2_def)
  have q1: "round53 (0 + 1 / 2 ^ 112) = 1 / 2 ^ 112"
    by (rule round53_is_double [where n = 1 and e = "- 112"]) (simp_all add: pow2_def)
  have q2: "round53 (1 / 2 ^ 112 + 1 / 2 ^ 112) = 1 / 2 ^ 111"
    by (rule round53_is_double [where n = 1 and e = "- 111"]) (simp_all add: pow2_def)
  have q3: "round53 (1 / 2 ^ 111 + 1 / 2 ^ 112) = 3 / 2 ^ 112"
    by (rule round53_is_double [where n = 3 and e = "- 112"]) (simp_all add: pow2_def)
  have qsum: "np_sum ieee [1 / 2 ^ 112, 1 / 2 ^ 112, 1 / 2 ^ 112] = 3 / 2 ^ 112"
    by (simp only: np_sum_def ieee_ops foldl.simps q1 q2 q3) simp
  have qm: "round53 (3 / 2 ^ 112 / 3) = 1 / 2 ^ 112"
    by (rule round53_is_double [where n = 1 and e = "- 112"]) (simp_all add: pow2_def)
  have "sqrt (1 / 2 ^ 112) = 1 / 2 ^ 56"
    by (rule real_sqrt_unique) (simp_all add: power2_eq_square)
  then have rt: "round53 (sqrt (1 / 2 ^ 112)) = 1 / 2 ^ 56"
    by (simp only:) (rule round53_is_double [where n = 1 and e = "- 56"], simp_all add: pow2_def)
  have squares: "map (\<lambda>x. rnd ieee (rnd ieee (x - 7205759403792795 / 2 ^ 56)
        * rnd ieee (x - 7205759403792795 / 2 ^ 56))) [d, d, d]
      = [1 / 2 ^ 112, 1 / 2 ^ 112, 1 / 2 ^ 112]"
    by (simp only: list.map ieee_ops dev sq)
  show std: "np_std ieee [d, d, d] = Fin (1 / 2 ^ 56)"
  proof -
    have "np_mean ieee [1 / 2 ^ 112, 1 / 2 ^ 112, 1 / 2 ^ 112]
        = f_div ieee (Fin (3 / 2 ^ 112)) (Fin 3)"
      unfolding np_mean_def qsum by simp
    also have "\<dots> = Fin (round53 (3 / 2 ^ 112 / 3))"
      by (rule f_div_ieee_Fin) simp
    finally have msq: "np_mean ieee [1 / 2 ^ 112, 1 / 2 ^ 112, 1 / 2 ^ 112] = Fin (1 / 2 ^ 112)"
      by (simp only: qm)
    have "f_sqrt ieee (Fin (1 / 2 ^ 112)) = Fin (round53 (sqrt (1 / 2 ^ 112)))"
      by (simp add: ieee_ops)
    then have "f_sqrt ieee (Fin (1 / 2 ^ 112)) = Fin (1 / 2 ^ 56)"
      by (simp only: rt)
    then show ?thesis
      unfolding np_std_def mean fval.case squares msq .
  qed
  have z: "round53 (- (1 / 2 ^ 56) / (1 / 2 ^ 56)) = - 1"
    by (simp add: round53_ints)
  have "f_div ieee (f_sub ieee (Fin d) (Fin (7205759403792795 / 2 ^ 56))) (Fin (1 / 2 ^ 56))
      = Fin (- 1)"
  proof -
    have "f_sub ieee (Fin d) (Fin (7205759403792795 / 2 ^ 56)) = Fin (- (1 / 2 ^ 56))"
      using dev by (simp add: f_sub_def ieee_ops)
    then show ?thesis using z by (simp add: ieee_ops)
  qed
  then show "zscore ieee [d, d, d] = [Fin (- 1), Fin (- 1), Fin (- 1)]"
    unfolding zscore_def mean std by simp
qed

end
